theory Spec2Isabelle
  imports Complex_Main
begin

section \<open>Board model\<close>

text \<open>
  The program is a single Python module, \<^verbatim>\<open>2048-ai.py\<close>. A board is a list of
  rows, each row a list of Python integers; \<open>0\<close> is an empty cell. Every function that
  indexes the board does so with \<^verbatim>\<open>range(4)\<close>, so the board is meant to be 4 by 4:
  \<open>wf_grid\<close> says so, and the statements about indexing functions assume it (on a
  smaller board Python raises \<^verbatim>\<open>IndexError\<close>; nothing is stated for such boards).
  A direction is one of the strings \<^verbatim>\<open>'up'\<close>, \<^verbatim>\<open>'down'\<close>, \<^verbatim>\<open>'left'\<close>, \<^verbatim>\<open>'right'\<close>.
\<close>

type_synonym grid = "int list list"

definition wf_grid :: "grid \<Rightarrow> bool" where
  "wf_grid grid = (length grid = 4 \<and> list_all (\<lambda>row. length row = 4) grid)"

text \<open>\<^verbatim>\<open>reverse(grid)\<close>: \<^verbatim>\<open>[row[::-1] for row in grid]\<close>.\<close>

definition reverse :: "grid \<Rightarrow> grid" where
  "reverse grid = map rev grid"

text \<open>
  Python's \<^verbatim>\<open>zip(*rows)\<close>: the tuple of the first elements, then of the second ones, and
  so on, stopping as soon as one of the rows is exhausted; no tuple for no rows.
\<close>

function zip_star :: "'a list list \<Rightarrow> 'a list list" where
  "zip_star rows =
     (if rows = [] \<or> list_ex (\<lambda>row. row = []) rows then []
      else map hd rows # zip_star (map tl rows))"
  by pat_completeness auto
termination
proof (relation "measure (\<lambda>rows. length (hd rows))")
  show "wf (measure (\<lambda>rows::'a list list. length (hd rows)))" by simp
next
  fix rows :: "'a list list"
  assume a: "\<not> (rows = [] \<or> list_ex (\<lambda>row. row = []) rows)"
  then have "hd rows \<noteq> []" by (cases rows) (auto simp: list_ex_iff)
  moreover from a have "hd (map tl rows) = tl (hd rows)" by (simp add: hd_map)
  ultimately show "(map tl rows, rows) \<in> measure (\<lambda>rows. length (hd rows))"
    by (cases "hd rows") auto
qed

declare zip_star.simps [simp del]

text \<open>
  \<^verbatim>\<open>rotate(grid, times=1)\<close>: \<^verbatim>\<open>times = times % 4\<close> (Python's remainder has the sign of
  the divisor, so \<open>-1\<close> becomes \<open>3\<close>), then that many times
  \<^verbatim>\<open>grid = [list(row) for row in zip(*grid[::-1])]\<close>.
\<close>

definition rotate_step :: "grid \<Rightarrow> grid" where
  "rotate_step grid = zip_star (rev grid)"

definition rotate :: "grid \<Rightarrow> int \<Rightarrow> grid" where
  "rotate grid turns = (rotate_step ^^ nat (turns mod 4)) grid"

text \<open>
  The \<^verbatim>\<open>while\<close> loop of \<^verbatim>\<open>merge_left\<close> on one row, with its index \<open>i\<close> and the list
  it mutates. \<^verbatim>\<open>i < len(new_row) - 1\<close> is \<open>i + 1 < length new_row\<close>. In the merging
  branch \<^verbatim>\<open>new_row[i] *= 2\<close>, \<^verbatim>\<open>del new_row[i + 1]\<close> and \<^verbatim>\<open>new_row.append(0)\<close> keep the
  length, so the loop ends when \<open>i\<close> reaches it.
\<close>

function merge_loop :: "nat \<Rightarrow> int list \<Rightarrow> int list" where
  "merge_loop i new_row =
     (if i + 1 < length new_row then
        (if new_row ! i = new_row ! (i + 1)
         then merge_loop (i + 1)
                (take (i + 1) (new_row[i := new_row ! i * 2]) @
                 drop (i + 2) (new_row[i := new_row ! i * 2]) @ [0])
         else merge_loop (i + 1) new_row)
      else new_row)"
  by pat_completeness auto
termination
  by (relation "measure (\<lambda>(i, new_row). length new_row - i)") auto

declare merge_loop.simps [simp del]

text \<open>
  The body of the \<^verbatim>\<open>for row in grid\<close> loop: filter the non-zero tiles, run the loop,
  then \<^verbatim>\<open>new_row += [0] * (4 - len(new_row))\<close> (nothing is added when the row is
  longer than 4: a list times a negative number is empty).
\<close>

definition merge_left_row :: "int list \<Rightarrow> int list" where
  "merge_left_row row =
     (let new_row = merge_loop 0 (filter (\<lambda>tile. tile \<noteq> 0) row)
      in new_row @ replicate (4 - length new_row) 0)"

definition merge_left :: "grid \<Rightarrow> grid" where
  "merge_left grid = map merge_left_row grid"

text \<open>
  \<^verbatim>\<open>move(grid, direction)\<close>. A string that is none of the four directions falls through
  the \<^verbatim>\<open>if\<close>/\<^verbatim>\<open>elif\<close> chain and the grid is returned as it is.
\<close>

definition move :: "grid \<Rightarrow> string \<Rightarrow> grid" where
  "move grid direction =
     (if direction = ''up'' then rotate (merge_left (rotate grid 1)) (- 1)
      else if direction = ''down'' then rotate (merge_left (rotate grid (- 1))) 1
      else if direction = ''left'' then merge_left grid
      else if direction = ''right'' then reverse (merge_left (reverse grid))
      else grid)"

text \<open>
  \<^verbatim>\<open>game_over(grid)\<close>: not over while some row holds a \<open>0\<close>; otherwise over unless
  two cells next to each other, in a column (\<open>x\<close> and \<open>x + 1\<close>) or in a row (\<open>y\<close> and
  \<open>y + 1\<close>), are equal.
\<close>

definition game_over :: "grid \<Rightarrow> bool" where
  "game_over grid =
     (if list_ex (\<lambda>row. 0 \<in> set row) grid then False
      else list_all (\<lambda>x. list_all (\<lambda>y.
             \<not> (x + 1 < 4 \<and> grid ! x ! y = grid ! (x + 1) ! y) \<and>
             \<not> (y + 1 < 4 \<and> grid ! x ! y = grid ! x ! (y + 1))) [0..<4]) [0..<4])"

text \<open>
  \<^verbatim>\<open>get_possible_moves(grid)\<close>: the directions, in the order up, down, left, right,
  whose move changes the grid, each with the grid it leads to.
\<close>

definition get_possible_moves :: "grid \<Rightarrow> (string \<times> grid) list" where
  "get_possible_moves grid =
     [(direction, move grid direction).
        direction \<leftarrow> [''up'', ''down'', ''left'', ''right''],
        move grid direction \<noteq> grid]"

text \<open>
  \<^verbatim>\<open>[(r, c) for r in range(4) for c in range(4) if grid[r][c] == 0]\<close>, the list both
  \<^verbatim>\<open>add_random_tile\<close> and the chance node of \<^verbatim>\<open>expectimax\<close> build.
\<close>

definition empty_cells :: "grid \<Rightarrow> (nat \<times> nat) list" where
  "empty_cells grid = [(r, c). r \<leftarrow> [0..<4], c \<leftarrow> [0..<4], grid ! r ! c = 0]"

text \<open>\<^verbatim>\<open>grid[r][c] = value\<close> on a copy of the grid.\<close>

definition set_cell :: "grid \<Rightarrow> nat \<Rightarrow> nat \<Rightarrow> int \<Rightarrow> grid" where
  "set_cell grid r c v = grid[r := (grid ! r)[c := v]]"

text \<open>
  \<^verbatim>\<open>add_random_tile(grid)\<close> draws twice from the random generator. The two draws are
  arguments here: \<open>pick\<close> is the position in \<open>empty_cells\<close> that \<^verbatim>\<open>random.choice\<close>
  returns (always below the length of the list) and \<open>small\<close> is the outcome of
  \<^verbatim>\<open>random.random() < 0.9\<close>. The source changes the grid in place; the new grid is
  returned here.
\<close>

definition add_random_tile :: "grid \<Rightarrow> nat \<Rightarrow> bool \<Rightarrow> grid" where
  "add_random_tile grid pick small =
     (let cells = empty_cells grid
      in if cells \<noteq> []
         then (case cells ! pick of (row, col) \<Rightarrow> set_cell grid row col (if small then 2 else 4))
         else grid)"

text \<open>\<^verbatim>\<open>initialize_game()\<close>: sixteen zeros, then two random tiles.\<close>

definition initialize_game :: "nat \<Rightarrow> bool \<Rightarrow> nat \<Rightarrow> bool \<Rightarrow> grid" where
  "initialize_game pick1 small1 pick2 small2 =
     add_random_tile (add_random_tile (replicate 4 (replicate 4 0)) pick1 small1) pick2 small2"

subsection \<open>Notions of the specification\<close>

text \<open>A tile value: a power of two, at least 2.\<close>

function is_pow2 :: "int \<Rightarrow> bool" where
  "is_pow2 v = (if v < 2 then False else if v = 2 then True
                else v mod 2 = 0 \<and> is_pow2 (v div 2))"
  by pat_completeness auto
termination
  by (relation "measure nat") auto

declare is_pow2.simps [simp del]

definition cell_ok :: "int \<Rightarrow> bool" where
  "cell_ok v = (v = 0 \<or> is_pow2 v)"

definition cells_ok :: "grid \<Rightarrow> bool" where
  "cells_ok grid = list_all (list_all cell_ok) grid"

text \<open>The sum of all cell values.\<close>

definition grid_sum :: "grid \<Rightarrow> int" where
  "grid_sum grid = sum_list (map sum_list grid)"

text \<open>
  The columns of a board, each read top to bottom (row 0 is the top row: it is the one
  the driver prints first), from the left column to the right one.
\<close>

definition columns :: "grid \<Rightarrow> grid" where
  "columns grid = map (\<lambda>c. map (\<lambda>row. row ! c) grid) [0..<4]"

text \<open>
  The reference move of the specification: bring the edge the tiles slide to onto the left
  (rows as they are for left, each row reversed for right, the columns read top to bottom
  for up, the columns read bottom to top for down), run the left-merge pass on every
  line, undo the reorientation.
\<close>

definition move_ref :: "grid \<Rightarrow> string \<Rightarrow> grid" where
  "move_ref grid direction =
     (if direction = ''left'' then map merge_left_row grid
      else if direction = ''right'' then map rev (map merge_left_row (map rev grid))
      else if direction = ''up'' then columns (map merge_left_row (columns grid))
      else if direction = ''down''
        then columns (map rev (map merge_left_row (map rev (columns grid))))
      else grid)"

text \<open>
  A line (a row, or a column read in one direction) is stuck when the left-merge pass
  leaves it and its reversal as they are; it is empty when all its cells are zero, and
  full when it has no zero and no two equal neighbours.
\<close>

definition line_stuck :: "int list \<Rightarrow> bool" where
  "line_stuck line = (merge_left_row line = line \<and> merge_left_row (rev line) = rev line)"

definition line_empty :: "int list \<Rightarrow> bool" where
  "line_empty line = list_all (\<lambda>v. v = 0) line"

definition line_full :: "int list \<Rightarrow> bool" where
  "line_full line = (0 \<notin> set line \<and> distinct_adj line)"

subsection \<open>The left-merge pass as the specification words it\<close>

text \<open>
  Compact the non-zero tiles, scan left to right, replace two equal neighbours by one
  tile of twice the value and go on after it (the merged tile is not looked at again),
  pad with zeros to length 4.
\<close>

fun merge_pairs :: "int list \<Rightarrow> int list" where
  "merge_pairs [] = []"
| "merge_pairs [x] = [x]"
| "merge_pairs (x # y # rest) =
     (if x = y then (2 * x) # merge_pairs rest else x # merge_pairs (y # rest))"

definition merge_left_spec :: "int list \<Rightarrow> int list" where
  "merge_left_spec row =
     (let merged = merge_pairs (filter (\<lambda>tile. tile \<noteq> 0) row)
      in merged @ replicate (4 - length merged) 0)"

section \<open>Floating-point arithmetic\<close>

text \<open>
  The scores are Python floats. Nothing below depends on how floating-point operations
  round: the operations the source uses are the fields of a record, and every function
  that computes with floats takes the record as its first argument. With the fields read
  as the IEEE 754 double operations of Python the functions below are the source's.
  \<open>f_int\<close> is the conversion of an integer operand that meets a float operand,
  \<open>f_log2\<close> is \<^verbatim>\<open>math.log2\<close> (applied to integers only), \<open>f_less a b\<close> is \<^verbatim>\<open>a < b\<close>,
  the \<open>c_\<close> fields are the literals \<^verbatim>\<open>2.7\<close>, \<^verbatim>\<open>1.0\<close>, \<^verbatim>\<open>0.1\<close>, \<^verbatim>\<open>0.9\<close>, and \<open>neg_inf\<close> is
  \<^verbatim>\<open>-float('inf')\<close>.
\<close>

record 'f float_ops =
  f_int :: "int \<Rightarrow> 'f"
  f_log2 :: "int \<Rightarrow> 'f"
  f_add :: "'f \<Rightarrow> 'f \<Rightarrow> 'f"
  f_sub :: "'f \<Rightarrow> 'f \<Rightarrow> 'f"
  f_mul :: "'f \<Rightarrow> 'f \<Rightarrow> 'f"
  f_div :: "'f \<Rightarrow> 'f \<Rightarrow> 'f"
  f_abs :: "'f \<Rightarrow> 'f"
  f_less :: "'f \<Rightarrow> 'f \<Rightarrow> bool"
  c_2_7 :: 'f
  c_1_0 :: 'f
  c_0_1 :: 'f
  c_0_9 :: 'f
  neg_inf :: 'f

text \<open>Python's \<^verbatim>\<open>max(a, b)\<close>: \<open>b\<close> when \<^verbatim>\<open>b > a\<close>, otherwise \<open>a\<close>.\<close>

definition py_max :: "'f float_ops \<Rightarrow> 'f \<Rightarrow> 'f \<Rightarrow> 'f" where
  "py_max F a b = (if f_less F a b then b else a)"

section \<open>Heuristics\<close>

text \<open>\<^verbatim>\<open>empty_tile_heuristic\<close>: \<^verbatim>\<open>sum(row.count(0) for row in grid)\<close>.\<close>

definition empty_tile_heuristic :: "grid \<Rightarrow> int" where
  "empty_tile_heuristic grid = sum_list (map (\<lambda>row. int (count_list row 0)) grid)"

text \<open>
  The inner \<^verbatim>\<open>while\<close> loop of \<^verbatim>\<open>smoothness_heuristic\<close>: from \<open>(nx, ny)\<close> in steps of
  \<open>(dx, dy)\<close> to the first non-zero cell, while inside the board. The source runs it with
  the steps \<open>(1, 0)\<close> and \<open>(0, 1)\<close> only; the test \<open>0 < dx + dy\<close> stands for that (with a
  zero step the source's loop would not end on an empty cell).
\<close>

function scan :: "grid \<Rightarrow> nat \<Rightarrow> nat \<Rightarrow> nat \<Rightarrow> nat \<Rightarrow> int option" where
  "scan grid nx ny dx dy =
     (if nx < 4 \<and> ny < 4 \<and> 0 < dx + dy then
        (if grid ! nx ! ny \<noteq> 0 then Some (grid ! nx ! ny)
         else scan grid (nx + dx) (ny + dy) dx dy)
      else None)"
  by pat_completeness auto
termination
  by (relation "measure (\<lambda>(grid, nx, ny, dx, dy). (4 - nx) + (4 - ny))") auto

declare scan.simps [simp del]

definition smooth_cell :: "'f float_ops \<Rightarrow> grid \<Rightarrow> nat \<times> nat \<Rightarrow> 'f \<Rightarrow> 'f" where
  "smooth_cell F grid = (\<lambda>(x, y) smoothness.
     if grid ! x ! y \<noteq> 0 then
       (let v = f_log2 F (grid ! x ! y)
        in fold (\<lambda>(dx, dy) smoothness.
             case scan grid (x + dx) (y + dy) dx dy of
               Some target \<Rightarrow> f_sub F smoothness (f_abs F (f_sub F v (f_log2 F target)))
             | None \<Rightarrow> smoothness)
             [(1, 0), (0, 1)] smoothness)
     else smoothness)"

definition smoothness_heuristic :: "'f float_ops \<Rightarrow> grid \<Rightarrow> 'f" where
  "smoothness_heuristic F grid =
     fold (smooth_cell F grid) [(x, y). x \<leftarrow> [0..<4], y \<leftarrow> [0..<4]] (f_int F 0)"

text \<open>
  One step of the inner loops of \<^verbatim>\<open>monotonicity_heuristic\<close> on a line (a row, or a
  column): the pair is \<^verbatim>\<open>(totals[0], totals[1])\<close> for rows and
  \<^verbatim>\<open>(totals[2], totals[3])\<close> for columns.
\<close>

definition mono_step :: "'f float_ops \<Rightarrow> int list \<Rightarrow> nat \<Rightarrow> 'f \<times> 'f \<Rightarrow> 'f \<times> 'f" where
  "mono_step F line i = (\<lambda>(dec, inc).
     let current = (if line ! i \<noteq> 0 then f_log2 F (line ! i) else f_int F 0);
         next = (if line ! (i + 1) \<noteq> 0 then f_log2 F (line ! (i + 1)) else f_int F 0)
     in if f_less F next current then (f_add F dec (f_sub F next current), inc)
        else if f_less F current next then (dec, f_add F inc (f_sub F current next))
        else (dec, inc))"

definition mono_lines :: "'f float_ops \<Rightarrow> int list list \<Rightarrow> 'f \<times> 'f" where
  "mono_lines F lines =
     fold (\<lambda>line totals. fold (mono_step F line) [0..<3] totals) lines (f_int F 0, f_int F 0)"

definition monotonicity_heuristic :: "'f float_ops \<Rightarrow> grid \<Rightarrow> 'f" where
  "monotonicity_heuristic F grid =
     (let (t0, t1) = mono_lines F (map (\<lambda>x. grid ! x) [0..<4]);
          (t2, t3) = mono_lines F (map (\<lambda>y. map (\<lambda>x. grid ! x ! y) [0..<4]) [0..<4])
      in f_add F (py_max F t0 t1) (py_max F t2 t3))"

text \<open>
  Python's \<^verbatim>\<open>max\<close> of a non-empty sequence of integers (it raises on an empty one; the
  rows of a 4 by 4 board are not empty).
\<close>

definition max_of :: "int list \<Rightarrow> int" where
  "max_of xs = fold max (tl xs) (hd xs)"

text \<open>
  \<^verbatim>\<open>max_tile_heuristic\<close>:
  \<^verbatim>\<open>math.log2(max(max(row) for row in grid)) if max(max(row) for row in grid) else 0\<close>.
\<close>

definition max_tile_heuristic :: "'f float_ops \<Rightarrow> grid \<Rightarrow> 'f" where
  "max_tile_heuristic F grid =
     (if max_of (map max_of grid) \<noteq> 0 then f_log2 F (max_of (map max_of grid))
      else f_int F 0)"

text \<open>\<^verbatim>\<open>combined_heuristic\<close>; Python adds from left to right.\<close>

definition combined_heuristic :: "'f float_ops \<Rightarrow> grid \<Rightarrow> 'f" where
  "combined_heuristic F grid =
     f_add F
       (f_add F
          (f_add F (f_mul F (c_2_7 F) (f_int F (empty_tile_heuristic grid)))
                   (f_mul F (c_1_0 F) (max_tile_heuristic F grid)))
          (f_mul F (c_0_1 F) (smoothness_heuristic F grid)))
       (f_mul F (c_1_0 F) (monotonicity_heuristic F grid))"

section \<open>Search\<close>

text \<open>
  The result of \<^verbatim>\<open>expectimax\<close> is a pair of a score and a direction or \<^verbatim>\<open>None\<close>. The
  transposition table is the module's dictionary from \<^verbatim>\<open>(grid_tuple, depth, player_turn)\<close>
  to results; the functions below take the table and return the new one.
\<close>

type_synonym 'f result = "'f \<times> string option"

type_synonym 'f table = "grid \<times> int \<times> bool \<Rightarrow> 'f result option"

text \<open>
  The loop of the maximizing node over \<^verbatim>\<open>get_possible_moves(grid)\<close>. \<open>child\<close> is the
  recursive call on the new grid; it gives \<open>None\<close> when it does not return.
\<close>

fun max_loop ::
  "'f float_ops \<Rightarrow> (grid \<Rightarrow> 'f table \<Rightarrow> ('f result \<times> 'f table) option) \<Rightarrow>
   (string \<times> grid) list \<Rightarrow> 'f \<Rightarrow> string option \<Rightarrow> 'f table \<Rightarrow>
   ('f result \<times> 'f table) option" where
  "max_loop F child [] max_score best_direction tt = Some ((max_score, best_direction), tt)"
| "max_loop F child ((direction, new_grid) # rest) max_score best_direction tt =
     (case child new_grid tt of
        None \<Rightarrow> None
      | Some ((score, _), tt') \<Rightarrow>
          if f_less F max_score score
          then max_loop F child rest score (Some direction) tt'
          else max_loop F child rest max_score best_direction tt')"

text \<open>
  The two nested loops of the chance node, over the empty cells and over the two tile
  values with their probabilities, as one loop over the outcomes in the same order.
\<close>

definition outcomes :: "'f float_ops \<Rightarrow> (nat \<times> nat) list \<Rightarrow> ((nat \<times> nat) \<times> int \<times> 'f) list" where
  "outcomes F cells = [(cell, vp). cell \<leftarrow> cells, vp \<leftarrow> [(2, c_0_9 F), (4, c_0_1 F)]]"

fun chance_loop ::
  "'f float_ops \<Rightarrow> (grid \<Rightarrow> 'f table \<Rightarrow> ('f result \<times> 'f table) option) \<Rightarrow>
   grid \<Rightarrow> nat \<Rightarrow> ((nat \<times> nat) \<times> int \<times> 'f) list \<Rightarrow> 'f \<Rightarrow> 'f table \<Rightarrow>
   ('f \<times> 'f table) option" where
  "chance_loop F child grid total_tiles [] score tt = Some (score, tt)"
| "chance_loop F child grid total_tiles (((r, c), v, probability) # rest) score tt =
     (case child (set_cell grid r c v) tt of
        None \<Rightarrow> None
      | Some ((tile_score, _), tt') \<Rightarrow>
          chance_loop F child grid total_tiles rest
            (f_add F score
               (f_mul F (f_div F probability (f_int F (int total_tiles))) tile_score))
            tt')"

text \<open>
  \<^verbatim>\<open>expectimax(grid, depth, player_turn, max_depth)\<close>. The first argument bounds the depth
  of the recursion: the result is \<open>None\<close> when the bound is reached, and \<open>Some\<close> of the
  returned pair and the table after the call otherwise.
\<close>

fun expectimax ::
  "nat \<Rightarrow> 'f float_ops \<Rightarrow> grid \<Rightarrow> int \<Rightarrow> bool \<Rightarrow> int \<Rightarrow> 'f table \<Rightarrow>
   ('f result \<times> 'f table) option" where
  "expectimax 0 F grid depth player_turn max_depth tt = None"
| "expectimax (Suc fuel) F grid depth player_turn max_depth tt =
     (case tt (grid, depth, player_turn) of
        Some cached \<Rightarrow> Some (cached, tt)
      | None \<Rightarrow>
          if depth = max_depth \<or> game_over grid then
            (let score = combined_heuristic F grid
             in Some ((score, None), tt((grid, depth, player_turn) \<mapsto> (score, None))))
          else if player_turn then
            (case max_loop F (\<lambda>new_grid t. expectimax fuel F new_grid (depth + 1) False max_depth t)
                    (get_possible_moves grid) (neg_inf F) None tt of
               None \<Rightarrow> None
             | Some ((max_score, best_direction), tt') \<Rightarrow>
                 Some ((max_score, best_direction),
                       tt'((grid, depth, player_turn) \<mapsto> (max_score, best_direction))))
          else
            (let cells = empty_cells grid
             in if cells = [] then
                  (let score = combined_heuristic F grid
                   in Some ((score, None), tt((grid, depth, player_turn) \<mapsto> (score, None))))
                else
                  (case chance_loop F
                          (\<lambda>grid_new t. expectimax fuel F grid_new (depth + 1) True max_depth t)
                          grid (length cells) (outcomes F cells) (f_int F 0) tt of
                     None \<Rightarrow> None
                   | Some (score, tt') \<Rightarrow>
                       Some ((score, None), tt'((grid, depth, player_turn) \<mapsto> (score, None))))))"


subsection \<open>The same recursion without the transposition table\<close>

text \<open>
  \<^verbatim>\<open>expectimax\<close> with the lookup at its start and the stores before its returns
  removed, and nothing else changed.
\<close>

fun max_loop_nomemo ::
  "'f float_ops \<Rightarrow> (grid \<Rightarrow> 'f result option) \<Rightarrow> (string \<times> grid) list \<Rightarrow> 'f \<Rightarrow>
   string option \<Rightarrow> 'f result option" where
  "max_loop_nomemo F child [] max_score best_direction = Some (max_score, best_direction)"
| "max_loop_nomemo F child ((direction, new_grid) # rest) max_score best_direction =
     (case child new_grid of
        None \<Rightarrow> None
      | Some (score, _) \<Rightarrow>
          if f_less F max_score score
          then max_loop_nomemo F child rest score (Some direction)
          else max_loop_nomemo F child rest max_score best_direction)"

fun chance_loop_nomemo ::
  "'f float_ops \<Rightarrow> (grid \<Rightarrow> 'f result option) \<Rightarrow> grid \<Rightarrow> nat \<Rightarrow>
   ((nat \<times> nat) \<times> int \<times> 'f) list \<Rightarrow> 'f \<Rightarrow> 'f option" where
  "chance_loop_nomemo F child grid total_tiles [] score = Some score"
| "chance_loop_nomemo F child grid total_tiles (((r, c), v, probability) # rest) score =
     (case child (set_cell grid r c v) of
        None \<Rightarrow> None
      | Some (tile_score, _) \<Rightarrow>
          chance_loop_nomemo F child grid total_tiles rest
            (f_add F score
               (f_mul F (f_div F probability (f_int F (int total_tiles))) tile_score)))"

fun expectimax_nomemo ::
  "nat \<Rightarrow> 'f float_ops \<Rightarrow> grid \<Rightarrow> int \<Rightarrow> bool \<Rightarrow> int \<Rightarrow> 'f result option" where
  "expectimax_nomemo 0 F grid depth player_turn max_depth = None"
| "expectimax_nomemo (Suc fuel) F grid depth player_turn max_depth =
     (if depth = max_depth \<or> game_over grid then Some (combined_heuristic F grid, None)
      else if player_turn then
        max_loop_nomemo F (\<lambda>new_grid. expectimax_nomemo fuel F new_grid (depth + 1) False max_depth)
          (get_possible_moves grid) (neg_inf F) None
      else
        (let cells = empty_cells grid
         in if cells = [] then Some (combined_heuristic F grid, None)
            else
              (case chance_loop_nomemo F
                      (\<lambda>grid_new. expectimax_nomemo fuel F grid_new (depth + 1) True max_depth)
                      grid (length cells) (outcomes F cells) (f_int F 0) of
                 None \<Rightarrow> None
               | Some score \<Rightarrow> Some (score, None))))"

text \<open>
  The table holds, for each key, the result the recursion without a table gives for that
  key (with enough fuel to return), and no key deeper than \<open>max_depth\<close>.
\<close>

definition table_ok :: "'f float_ops \<Rightarrow> int \<Rightarrow> 'f table \<Rightarrow> bool" where
  "table_ok F max_depth tt =
     (\<forall>grid depth player_turn r. tt (grid, depth, player_turn) = Some r \<longrightarrow>
        depth \<le> max_depth \<and>
        expectimax_nomemo (Suc (nat (max_depth - depth))) F grid depth player_turn max_depth = Some r)"

subsection \<open>An exact arithmetic\<close>

text \<open>
  One reading of the float operations, used to instantiate the statements below: exact
  real arithmetic, with one more element for \<^verbatim>\<open>-float('inf')\<close> that is below every
  real and that every operation absorbs (the search only compares it and, in a chance
  node, scales it by a positive weight and adds it).
\<close>

datatype xreal = MinusInf | Fin real

fun x_add :: "xreal \<Rightarrow> xreal \<Rightarrow> xreal" where
  "x_add (Fin a) (Fin b) = Fin (a + b)"
| "x_add _ _ = MinusInf"

fun x_sub :: "xreal \<Rightarrow> xreal \<Rightarrow> xreal" where
  "x_sub (Fin a) (Fin b) = Fin (a - b)"
| "x_sub _ _ = MinusInf"

fun x_mul :: "xreal \<Rightarrow> xreal \<Rightarrow> xreal" where
  "x_mul (Fin a) (Fin b) = Fin (a * b)"
| "x_mul _ _ = MinusInf"

fun x_div :: "xreal \<Rightarrow> xreal \<Rightarrow> xreal" where
  "x_div (Fin a) (Fin b) = Fin (a / b)"
| "x_div _ _ = MinusInf"

fun x_abs :: "xreal \<Rightarrow> xreal" where
  "x_abs (Fin a) = Fin \<bar>a\<bar>"
| "x_abs MinusInf = MinusInf"

fun x_less :: "xreal \<Rightarrow> xreal \<Rightarrow> bool" where
  "x_less (Fin a) (Fin b) = (a < b)"
| "x_less MinusInf (Fin b) = True"
| "x_less _ MinusInf = False"

definition exact_ops :: "xreal float_ops" where
  "exact_ops =
     \<lparr> f_int = (\<lambda>i. Fin (real_of_int i)),
       f_log2 = (\<lambda>i. Fin (log 2 (real_of_int i))),
       f_add = x_add, f_sub = x_sub, f_mul = x_mul, f_div = x_div,
       f_abs = x_abs, f_less = x_less,
       c_2_7 = Fin (27 / 10), c_1_0 = Fin 1, c_0_1 = Fin (1 / 10), c_0_9 = Fin (9 / 10),
       neg_inf = MinusInf \<rparr>"

subsection \<open>Boards on which the source raises no exception\<close>

text \<open>
  The model has no exceptions. The source raises \<^verbatim>\<open>IndexError\<close> on a board that is
  smaller than 4 by 4, and \<^verbatim>\<open>math.log2\<close> raises \<^verbatim>\<open>ValueError\<close> on a negative cell; on
  a 4 by 4 board without negative cells neither happens, and the model is the source.
  The statements about the heuristics and the search are made for such boards.
\<close>

definition board_ok :: "grid \<Rightarrow> bool" where
  "board_ok grid = (wf_grid grid \<and> list_all (\<lambda>v. 0 \<le> v) (concat grid))"

subsection \<open>The value of a chance node, as the specification words it\<close>






section \<open>The left-merge pass\<close>

lemma merge_pairs_length: "length (merge_pairs row) \<le> length row"
  by (induction row rule: merge_pairs.induct) auto

lemma merge_loop_length: "length (merge_loop i xs) = length xs"
  by (induction i xs rule: merge_loop.induct) (subst merge_loop.simps, auto)

text \<open>Once the index is among the trailing zeros, the loop changes nothing.\<close>

lemma merge_loop_zeros:
  "length done = i \<Longrightarrow> merge_loop i (done @ replicate m 0) = done @ replicate m 0"
proof (induction m arbitrary: i "done")
  case 0
  then show ?case by (simp add: merge_loop.simps)
next
  case (Suc m)
  show ?case
  proof (cases m)
    case 0
    with Suc.prems show ?thesis by (simp add: merge_loop.simps)
  next
    case (Suc k)
    let ?xs = "done @ replicate (Suc (Suc k)) 0"
    have len: "i + 1 < length ?xs" using Suc.prems by simp
    have a: "?xs ! i = 0" using Suc.prems by (simp add: nth_append)
    have b: "?xs ! (i + 1) = 0" using Suc.prems by (simp add: nth_append)
    have upd: "?xs[i := ?xs ! i * 2] = ?xs"
      using a by (metis list_update_id mult_zero_left)
    have shape: "take (i + 1) ?xs @ drop (i + 2) ?xs @ [0] = (done @ [0]) @ replicate (Suc k) 0"
      using Suc.prems by (simp add: replicate_append_same)
    have "merge_loop i ?xs = merge_loop (i + 1) (take (i + 1) ?xs @ drop (i + 2) ?xs @ [0])"
      using len a b upd by (subst merge_loop.simps) simp
    also have "\<dots> = merge_loop (i + 1) ((done @ [0]) @ replicate (Suc k) 0)"
      using shape by simp
    also have "\<dots> = (done @ [0]) @ replicate (Suc k) 0"
      using Suc.IH [of "done @ [0]" "i + 1"] Suc.prems \<open>m = Suc k\<close> by simp
    finally show ?thesis using \<open>m = Suc k\<close> by (simp add: replicate_append_same)
  qed
qed

text \<open>
  The loop invariant: left of the index are the tiles already settled, then the tiles
  still to scan (none of them zero), then the zeros appended by earlier merges.
\<close>

lemma merge_loop_merge_pairs:
  "length done = i \<Longrightarrow> 0 \<notin> set rest \<Longrightarrow>
   merge_loop i (done @ rest @ replicate m 0) =
     done @ merge_pairs rest @ replicate (m + length rest - length (merge_pairs rest)) 0"
proof (induction rest arbitrary: i "done" m rule: merge_pairs.induct)
  case (3 x y rest)
  let ?xs = "done @ (x # y # rest) @ replicate m 0"
  have len: "i + 1 < length ?xs" using "3.prems" by simp
  have a: "?xs ! i = x" using "3.prems" by (simp add: nth_append)
  have b: "?xs ! (i + 1) = y" using "3.prems" by (simp add: nth_append)
  have le: "length (merge_pairs rest) \<le> length rest" by (rule merge_pairs_length)
  show ?case
  proof (cases "x = y")
    case True
    have shape: "take (i + 1) (?xs[i := ?xs ! i * 2]) @ drop (i + 2) (?xs[i := ?xs ! i * 2]) @ [0]
        = (done @ [2 * x]) @ rest @ replicate (Suc m) 0"
      using "3.prems" a by (simp add: list_update_append replicate_append_same)
    have "merge_loop i ?xs = merge_loop (i + 1) ((done @ [2 * x]) @ rest @ replicate (Suc m) 0)"
      using len a b True shape by (subst merge_loop.simps) simp
    also have "\<dots> = (done @ [2 * x]) @ merge_pairs rest @
        replicate (Suc m + length rest - length (merge_pairs rest)) 0"
      using "3.IH"(1) [OF True, of "done @ [2 * x]" "i + 1" "Suc m"] "3.prems" by simp
    finally show ?thesis using True le by (simp add: Suc_diff_le)
  next
    case False
    have "merge_loop i ?xs = merge_loop (i + 1) ((done @ [x]) @ (y # rest) @ replicate m 0)"
      using len a b False by (subst merge_loop.simps) simp
    also have "\<dots> = (done @ [x]) @ merge_pairs (y # rest) @
        replicate (m + length (y # rest) - length (merge_pairs (y # rest))) 0"
      using "3.IH"(2) [OF False, of "done @ [x]" "i + 1" m] "3.prems" by simp
    finally show ?thesis using False by simp
  qed
next
  case 1
  then show ?case using merge_loop_zeros [of "done" i m] by simp
next
  case (2 v)
  show ?case
  proof (cases m)
    case 0
    then show ?thesis using "2.prems" by (simp add: merge_loop.simps)
  next
    case (Suc k)
    let ?xs = "done @ [v] @ replicate m 0"
    have len: "i + 1 < length ?xs" using "2.prems" Suc by simp
    have a: "?xs ! i = v" using "2.prems" by (simp add: nth_append)
    have b: "?xs ! (i + 1) = 0" using "2.prems" Suc by (simp add: nth_append)
    have "v \<noteq> 0" using "2.prems" by auto
    then have "merge_loop i ?xs = merge_loop (i + 1) ((done @ [v]) @ replicate m 0)"
      using len a b by (subst merge_loop.simps) simp
    also have "\<dots> = (done @ [v]) @ replicate m 0"
      using merge_loop_zeros [of "done @ [v]" "i + 1" m] "2.prems" by simp
    finally show ?thesis by simp
  qed
qed

lemma merge_loop_filter:
  "merge_loop 0 (filter (\<lambda>tile. tile \<noteq> 0) row) =
     merge_pairs (filter (\<lambda>tile. tile \<noteq> 0) row) @
     replicate (length (filter (\<lambda>tile. tile \<noteq> 0) row) -
                length (merge_pairs (filter (\<lambda>tile. tile \<noteq> 0) row))) 0"
  using merge_loop_merge_pairs [of "[]" 0 "filter (\<lambda>tile. tile \<noteq> 0) row" 0] by simp

lemma merge_left_row_spec:
  assumes "length row \<le> 4"
  shows "merge_left_row row = merge_left_spec row"
proof -
  let ?nz = "filter (\<lambda>tile. tile \<noteq> 0) row"
  have nz: "length ?nz \<le> 4"
    using assms length_filter_le [of "\<lambda>tile. tile \<noteq> 0" row] by linarith
  have mp: "length (merge_pairs ?nz) \<le> length ?nz" by (rule merge_pairs_length)
  have "length ?nz - length (merge_pairs ?nz) + (4 - length ?nz) = 4 - length (merge_pairs ?nz)"
    using nz mp by linarith
  then show ?thesis
    unfolding merge_left_row_def merge_left_spec_def Let_def
    by (simp add: merge_loop_filter merge_loop_length replicate_add [symmetric])
qed

lemma merge_left_row_length:
  assumes "length row \<le> 4"
  shows "length (merge_left_row row) = 4"
proof -
  have "length (filter (\<lambda>tile. tile \<noteq> 0) row) \<le> 4"
    using assms length_filter_le [of "\<lambda>tile. tile \<noteq> 0" row] by linarith
  then show ?thesis
    by (simp add: merge_left_row_def Let_def merge_loop_length)
qed

text \<open>
  C3. On every row of four tiles the left-merge pass of the source is the pass the
  specification describes: compact the non-zero tiles in order, merge equal neighbours
  left to right with a merged tile never merging again, pad with zeros to length 4. On
  \<open>[2,2,2,2]\<close> it gives \<open>[4,4,0,0]\<close>, not \<open>[8,0,0,0]\<close>, and on \<open>[4,2,2,4]\<close> it gives
  \<open>[4,4,4,0]\<close>. The tiles need not be non-negative for this.
\<close>

theorem merge_left_row_single_merge:
  assumes "length row = 4"
  shows "merge_left_row row = merge_left_spec row \<and>
         length (merge_left_row row) = 4 \<and>
         merge_left [row] = [merge_left_spec row] \<and>
         merge_left_row [2, 2, 2, 2] = [4, 4, 0, 0] \<and>
         merge_left_row [2, 2, 2, 2] \<noteq> [8, 0, 0, 0] \<and>
         merge_left_row [4, 2, 2, 4] = [4, 4, 4, 0]"
proof -
  have le: "length row \<le> 4" using assms by simp
  have a: "merge_left_row [2, 2, 2, 2] = [4, 4, 0, 0]"
    by (simp add: merge_left_row_spec merge_left_spec_def eval_nat_numeral)
  have b: "merge_left_row [4, 2, 2, 4] = [4, 4, 4, 0]"
    by (simp add: merge_left_row_spec merge_left_spec_def)
  show ?thesis
    using merge_left_row_spec [OF le] merge_left_row_length [OF le] a b
    by (simp add: merge_left_def)
qed

theorem merge_left_row_single_merge_witness:
  "length [2, 0, 2, 4 :: int] = 4 \<and> merge_left_row [2, 0, 2, 4] = [4, 4, 0, 0]"
  using merge_left_row_single_merge [of "[2, 0, 2, 4]"]
  by (simp add: merge_left_spec_def eval_nat_numeral)

section \<open>Rotations of a 4 by 4 board\<close>

lemma length4_explicit: "length xs = 4 \<Longrightarrow> \<exists>a b c d. xs = [a, b, c, d]"
  by (auto simp: length_Suc_conv eval_nat_numeral)

lemma wf_grid_explicit:
  assumes "wf_grid B"
  shows "\<exists>a1 a2 a3 a4 b1 b2 b3 b4 c1 c2 c3 c4 d1 d2 d3 d4.
           B = [[a1, a2, a3, a4], [b1, b2, b3, b4], [c1, c2, c3, c4], [d1, d2, d3, d4]]"
proof -
  from assms obtain r0 r1 r2 r3 where B: "B = [r0, r1, r2, r3]"
    unfolding wf_grid_def using length4_explicit by blast
  with assms have "length r0 = 4" "length r1 = 4" "length r2 = 4" "length r3 = 4"
    by (simp_all add: wf_grid_def)
  then show ?thesis using B length4_explicit by metis
qed

lemma rotate_step_explicit:
  "rotate_step [[a1, a2, a3, a4], [b1, b2, b3, b4], [c1, c2, c3, c4], [d1, d2, d3, d4]] =
     [[d1, c1, b1, a1], [d2, c2, b2, a2], [d3, c3, b3, a3], [d4, c4, b4, a4]]"
  by (simp add: rotate_step_def zip_star.simps)

lemma rotate_explicit:
  "rotate [[a1, a2, a3, a4], [b1, b2, b3, b4], [c1, c2, c3, c4], [d1, d2, d3, d4]] 1 =
     [[d1, c1, b1, a1], [d2, c2, b2, a2], [d3, c3, b3, a3], [d4, c4, b4, a4]]"
  "rotate [[a1, a2, a3, a4], [b1, b2, b3, b4], [c1, c2, c3, c4], [d1, d2, d3, d4]] (- 1) =
     [[a4, b4, c4, d4], [a3, b3, c3, d3], [a2, b2, c2, d2], [a1, b1, c1, d1]]"
  by (simp_all add: rotate_def rotate_step_explicit eval_nat_numeral)

lemma upt_0_4: "[0..<4] = [0, 1, 2, 3]"
  by code_simp

lemma columns_explicit:
  "columns [[a1, a2, a3, a4], [b1, b2, b3, b4], [c1, c2, c3, c4], [d1, d2, d3, d4]] =
     [[a1, b1, c1, d1], [a2, b2, c2, d2], [a3, b3, c3, d3], [a4, b4, c4, d4]]"
  by (simp add: columns_def upt_0_4)

lemma rotate_columns:
  assumes "wf_grid B"
  shows "rotate B 1 = map rev (columns B)" and "rotate B (- 1) = rev (columns B)"
    and "columns (columns B) = B" and "wf_grid (columns B)"
    and "columns (map rev B) = rev (columns B)"
    and "columns (rev B) = map rev (columns B)"
proof -
  from wf_grid_explicit [OF assms] obtain a1 a2 a3 a4 b1 b2 b3 b4 c1 c2 c3 c4 d1 d2 d3 d4 where
    B: "B = [[a1, a2, a3, a4], [b1, b2, b3, b4], [c1, c2, c3, c4], [d1, d2, d3, d4]]" by blast
  show "rotate B 1 = map rev (columns B)" by (simp add: B rotate_explicit columns_explicit)
  show "rotate B (- 1) = rev (columns B)" by (simp add: B rotate_explicit columns_explicit)
  show "columns (columns B) = B" by (simp add: B columns_explicit)
  show "wf_grid (columns B)" by (simp add: B columns_explicit wf_grid_def)
  show "columns (map rev B) = rev (columns B)" by (simp add: B columns_explicit)
  show "columns (rev B) = map rev (columns B)" by (simp add: B columns_explicit)
qed

lemma wf_grid_map:
  assumes "wf_grid B" and "\<And>r. length r = 4 \<Longrightarrow> length (f r) = 4"
  shows "wf_grid (map f B)"
  using assms by (simp add: wf_grid_def list_all_iff)

lemma wf_grid_rev: "wf_grid B \<Longrightarrow> wf_grid (rev B)"
  by (simp add: wf_grid_def list_all_iff)

lemma wf_merge_left: "wf_grid B \<Longrightarrow> wf_grid (map merge_left_row B)"
  by (rule wf_grid_map) (simp_all add: merge_left_row_length)

lemma wf_map_rev: "wf_grid B \<Longrightarrow> wf_grid (map rev B)"
  by (rule wf_grid_map) simp_all

lemma move_as_ref:
  assumes "wf_grid B"
  shows "move B ''left'' = move_ref B ''left''"
    and "move B ''right'' = move_ref B ''right''"
    and "move B ''up'' = move_ref B ''down''"
    and "move B ''down'' = move_ref B ''up''"
proof -
  show "move B ''left'' = move_ref B ''left''"
    by (simp add: move_def move_ref_def merge_left_def)
  show "move B ''right'' = move_ref B ''right''"
    by (simp add: move_def move_ref_def merge_left_def reverse_def)
  have w1: "wf_grid (map merge_left_row (map rev (columns B)))"
    using assms by (intro wf_merge_left wf_map_rev rotate_columns(4))
  show "move B ''up'' = move_ref B ''down''"
    using rotate_columns(2) [OF w1] rotate_columns(5) [OF w1]
    by (simp add: move_def move_ref_def merge_left_def rotate_columns(1) [OF assms])
  have w2: "wf_grid (map merge_left_row (rev (columns B)))"
    using assms by (intro wf_merge_left wf_grid_rev rotate_columns(4))
  have w3: "wf_grid (map merge_left_row (columns B))"
    using assms by (intro wf_merge_left rotate_columns(4))
  have "rotate (map merge_left_row (rev (columns B))) 1
      = map rev (columns (rev (map merge_left_row (columns B))))"
    using rotate_columns(1) [OF w2] by (simp add: rev_map)
  also have "\<dots> = columns (map merge_left_row (columns B))"
    using rotate_columns(6) [OF w3] by (simp add: comp_def)
  finally show "move B ''down'' = move_ref B ''up''"
    by (simp add: move_def move_ref_def merge_left_def rotate_columns(2) [OF assms])
qed

section \<open>Moves keep the sum of the tiles\<close>

lemma merge_pairs_sum: "sum_list (merge_pairs xs) = sum_list xs"
  by (induction xs rule: merge_pairs.induct) auto

lemma filter_nonzero_sum: "sum_list (filter (\<lambda>tile. tile \<noteq> 0) xs) = sum_list (xs :: int list)"
  by (induction xs) auto

lemma merge_left_row_sum:
  assumes "length row \<le> 4"
  shows "sum_list (merge_left_row row) = sum_list row"
  by (simp add: merge_left_row_spec [OF assms] merge_left_spec_def Let_def
      merge_pairs_sum filter_nonzero_sum sum_list_replicate)

lemma grid_sum_map:
  "(\<And>row. row \<in> set B \<Longrightarrow> sum_list (f row) = sum_list row) \<Longrightarrow> grid_sum (map f B) = grid_sum B"
  by (induction B) (simp_all add: grid_sum_def)

lemma grid_sum_merge_left:
  assumes "wf_grid B"
  shows "grid_sum (map merge_left_row B) = grid_sum B"
  using assms by (intro grid_sum_map) (simp add: wf_grid_def list_all_iff merge_left_row_sum)

lemma grid_sum_map_rev: "grid_sum (map rev B) = grid_sum B"
  by (intro grid_sum_map) simp

lemma grid_sum_columns:
  assumes "wf_grid B"
  shows "grid_sum (columns B) = grid_sum B"
proof -
  from wf_grid_explicit [OF assms] obtain a1 a2 a3 a4 b1 b2 b3 b4 c1 c2 c3 c4 d1 d2 d3 d4 where
    B: "B = [[a1, a2, a3, a4], [b1, b2, b3, b4], [c1, c2, c3, c4], [d1, d2, d3, d4]]" by blast
  show ?thesis by (simp add: B columns_explicit grid_sum_def)
qed

lemma grid_sum_move_ref:
  assumes "wf_grid B"
  shows "grid_sum (move_ref B direction) = grid_sum B"
proof -
  have c: "wf_grid (columns B)" using assms by (rule rotate_columns(4))
  have cs: "grid_sum (columns B) = grid_sum B" by (rule grid_sum_columns [OF assms])
  have up: "grid_sum (columns (map merge_left_row (columns B))) = grid_sum B"
    by (simp only: grid_sum_columns [OF wf_merge_left [OF c]] grid_sum_merge_left [OF c] cs)
  have down: "grid_sum (columns (map rev (map merge_left_row (map rev (columns B))))) = grid_sum B"
    by (simp only: grid_sum_columns [OF wf_map_rev [OF wf_merge_left [OF wf_map_rev [OF c]]]]
        grid_sum_map_rev grid_sum_merge_left [OF wf_map_rev [OF c]] cs)
  have right: "grid_sum (map rev (map merge_left_row (map rev B))) = grid_sum B"
    by (simp only: grid_sum_map_rev grid_sum_merge_left [OF wf_map_rev [OF assms]])
  show ?thesis
    unfolding move_ref_def using up down right grid_sum_merge_left [OF assms] by simp
qed

lemma move_cases:
  assumes "wf_grid B"
  shows "move B direction = move_ref B
           (if direction = ''up'' then ''down'' else if direction = ''down'' then ''up''
            else direction)"
proof -
  consider "direction = ''up''" | "direction = ''down''" | "direction = ''left''"
    | "direction = ''right''"
    | "direction \<noteq> ''up''" "direction \<noteq> ''down''" "direction \<noteq> ''left''" "direction \<noteq> ''right''"
    by blast
  then show ?thesis
  proof cases
    case 5
    then show ?thesis by (simp add: move_def move_ref_def)
  qed (simp_all add: move_as_ref [OF assms])
qed

lemma move_sum:
  assumes "wf_grid B"
  shows "grid_sum (move B direction) = grid_sum B"
  by (simp only: move_cases [OF assms] grid_sum_move_ref [OF assms])

section \<open>Boards on which no move changes anything\<close>

lemma merge_left_row_explicit:
  "merge_left_row [a, b, c, d] =
     (let merged = merge_pairs (filter (\<lambda>tile. tile \<noteq> 0) [a, b, c, d])
      in merged @ replicate (4 - length merged) 0)"
  by (simp add: merge_left_row_spec merge_left_spec_def)

lemma row_fixed_iff:
  "merge_left_row [a, b, c, d] = [a, b, c, d] \<longleftrightarrow>
     (a = 0 \<and> b = 0 \<and> c = 0 \<and> d = 0) \<or>
     (a \<noteq> 0 \<and> b = 0 \<and> c = 0 \<and> d = 0) \<or>
     (a \<noteq> 0 \<and> b \<noteq> 0 \<and> a \<noteq> b \<and> c = 0 \<and> d = 0) \<or>
     (a \<noteq> 0 \<and> b \<noteq> 0 \<and> c \<noteq> 0 \<and> a \<noteq> b \<and> b \<noteq> c \<and> d = 0) \<or>
     (a \<noteq> 0 \<and> b \<noteq> 0 \<and> c \<noteq> 0 \<and> d \<noteq> 0 \<and> a \<noteq> b \<and> b \<noteq> c \<and> c \<noteq> d)"
  by (auto simp: merge_left_row_explicit eval_nat_numeral)

lemma line_stuck_iff:
  assumes "length line = 4"
  shows "line_stuck line \<longleftrightarrow> line_empty line \<or> line_full line"
proof -
  from length4_explicit [OF assms] obtain a b c d where l: "line = [a, b, c, d]" by blast
  show ?thesis
    unfolding l line_stuck_def line_empty_def line_full_def
    by (simp add: row_fixed_iff) blast
qed

lemma map_rev_eq_iff: "map rev X = Y \<longleftrightarrow> X = map rev Y"
  by (auto simp: comp_def)

lemma columns_eq_iff:
  assumes "wf_grid X" "wf_grid Y"
  shows "columns X = Y \<longleftrightarrow> X = columns Y"
  using rotate_columns(3) [OF assms(1)] rotate_columns(3) [OF assms(2)] by auto

lemma map_fixed_iff: "map f xs = xs \<longleftrightarrow> (\<forall>x\<in>set xs. f x = x)"
  by (induction xs) auto

lemma moves_fixed:
  assumes "wf_grid B"
  shows "move B ''left'' = B \<longleftrightarrow> (\<forall>row\<in>set B. merge_left_row row = row)"
    and "move B ''right'' = B \<longleftrightarrow> (\<forall>row\<in>set B. merge_left_row (rev row) = rev row)"
    and "move B ''down'' = B \<longleftrightarrow> (\<forall>col\<in>set (columns B). merge_left_row col = col)"
    and "move B ''up'' = B \<longleftrightarrow> (\<forall>col\<in>set (columns B). merge_left_row (rev col) = rev col)"
proof -
  have c: "wf_grid (columns B)" using assms by (rule rotate_columns(4))
  show "move B ''left'' = B \<longleftrightarrow> (\<forall>row\<in>set B. merge_left_row row = row)"
    by (simp add: move_as_ref [OF assms] move_ref_def map_fixed_iff)
  have r: "move B ''right'' = map rev (map merge_left_row (map rev B))"
    by (simp add: move_as_ref [OF assms] move_ref_def)
  show "move B ''right'' = B \<longleftrightarrow> (\<forall>row\<in>set B. merge_left_row (rev row) = rev row)"
    unfolding r using map_rev_eq_iff [of "map merge_left_row (map rev B)" B] by simp
  have "move B ''down'' = B \<longleftrightarrow> map merge_left_row (columns B) = columns B"
    using columns_eq_iff [OF wf_merge_left [OF c] assms]
    by (simp add: move_as_ref [OF assms] move_ref_def)
  then show "move B ''down'' = B \<longleftrightarrow> (\<forall>col\<in>set (columns B). merge_left_row col = col)"
    by (simp add: map_fixed_iff)
  have u: "move B ''up'' = columns (map rev (map merge_left_row (map rev (columns B))))"
    by (simp add: move_as_ref [OF assms] move_ref_def)
  have "move B ''up'' = B \<longleftrightarrow> map rev (map merge_left_row (map rev (columns B))) = columns B"
    unfolding u
    using columns_eq_iff [OF wf_map_rev [OF wf_merge_left [OF wf_map_rev [OF c]]] assms] .
  then show "move B ''up'' = B \<longleftrightarrow> (\<forall>col\<in>set (columns B). merge_left_row (rev col) = rev col)"
    using map_rev_eq_iff [of "map merge_left_row (map rev (columns B))" "columns B"] by simp
qed

lemma no_moves_iff:
  assumes "wf_grid B"
  shows "get_possible_moves B = [] \<longleftrightarrow>
         (\<forall>row\<in>set B. line_stuck row) \<and> (\<forall>col\<in>set (columns B). line_stuck col)"
  unfolding get_possible_moves_def line_stuck_def
  using moves_fixed [OF assms] by auto

lemma game_over_explicit:
  "game_over [[a1, a2, a3, a4], [b1, b2, b3, b4], [c1, c2, c3, c4], [d1, d2, d3, d4]] \<longleftrightarrow>
     (a1 \<noteq> 0 \<and> a2 \<noteq> 0 \<and> a3 \<noteq> 0 \<and> a4 \<noteq> 0 \<and> b1 \<noteq> 0 \<and> b2 \<noteq> 0 \<and> b3 \<noteq> 0 \<and> b4 \<noteq> 0 \<and>
      c1 \<noteq> 0 \<and> c2 \<noteq> 0 \<and> c3 \<noteq> 0 \<and> c4 \<noteq> 0 \<and> d1 \<noteq> 0 \<and> d2 \<noteq> 0 \<and> d3 \<noteq> 0 \<and> d4 \<noteq> 0) \<and>
     (a1 \<noteq> a2 \<and> a2 \<noteq> a3 \<and> a3 \<noteq> a4 \<and> b1 \<noteq> b2 \<and> b2 \<noteq> b3 \<and> b3 \<noteq> b4 \<and>
      c1 \<noteq> c2 \<and> c2 \<noteq> c3 \<and> c3 \<noteq> c4 \<and> d1 \<noteq> d2 \<and> d2 \<noteq> d3 \<and> d3 \<noteq> d4) \<and>
     (a1 \<noteq> b1 \<and> b1 \<noteq> c1 \<and> c1 \<noteq> d1 \<and> a2 \<noteq> b2 \<and> b2 \<noteq> c2 \<and> c2 \<noteq> d2 \<and>
      a3 \<noteq> b3 \<and> b3 \<noteq> c3 \<and> c3 \<noteq> d3 \<and> a4 \<noteq> b4 \<and> b4 \<noteq> c4 \<and> c4 \<noteq> d4)"
  by (simp add: game_over_def upt_0_4) blast

lemma line_full_explicit:
  "line_full [a, b, c, d] \<longleftrightarrow> (a \<noteq> 0 \<and> b \<noteq> 0 \<and> c \<noteq> 0 \<and> d \<noteq> 0) \<and> (a \<noteq> b \<and> b \<noteq> c \<and> c \<noteq> d)"
  by (simp add: line_full_def)

lemma line_empty_explicit:
  "line_empty [a, b, c, d] \<longleftrightarrow> a = 0 \<and> b = 0 \<and> c = 0 \<and> d = 0"
  by (simp add: line_empty_def)


lemma game_over_lines:
  assumes "wf_grid B"
  shows "game_over B \<longleftrightarrow>
         (\<forall>row\<in>set B. line_full row) \<and> (\<forall>col\<in>set (columns B). line_full col)"
proof -
  from wf_grid_explicit [OF assms] obtain a1 a2 a3 a4 b1 b2 b3 b4 c1 c2 c3 c4 d1 d2 d3 d4 where
    B: "B = [[a1, a2, a3, a4], [b1, b2, b3, b4], [c1, c2, c3, c4], [d1, d2, d3, d4]]" by blast
  show ?thesis
    unfolding B columns_explicit game_over_explicit
    by (simp add: line_full_explicit) blast
qed

lemma stuck_lines_full:
  assumes "wf_grid B" and "B \<noteq> replicate 4 (replicate 4 0)"
    and rows: "\<forall>row\<in>set B. line_empty row \<or> line_full row"
    and cols: "\<forall>col\<in>set (columns B). line_empty col \<or> line_full col"
  shows "(\<forall>row\<in>set B. line_full row) \<and> (\<forall>col\<in>set (columns B). line_full col)"
proof -
  from wf_grid_explicit [OF assms(1)] obtain a1 a2 a3 a4 b1 b2 b3 b4 c1 c2 c3 c4 d1 d2 d3 d4 where
    B: "B = [[a1, a2, a3, a4], [b1, b2, b3, b4], [c1, c2, c3, c4], [d1, d2, d3, d4]]" by blast
  from rows have ra: "line_empty [a1, a2, a3, a4] \<or> line_full [a1, a2, a3, a4]"
    and rb: "line_empty [b1, b2, b3, b4] \<or> line_full [b1, b2, b3, b4]"
    and rc: "line_empty [c1, c2, c3, c4] \<or> line_full [c1, c2, c3, c4]"
    and rd: "line_empty [d1, d2, d3, d4] \<or> line_full [d1, d2, d3, d4]"
    by (simp_all add: B)
  from cols have c1: "line_empty [a1, b1, c1, d1] \<or> line_full [a1, b1, c1, d1]"
    and c2: "line_empty [a2, b2, c2, d2] \<or> line_full [a2, b2, c2, d2]"
    and c3: "line_empty [a3, b3, c3, d3] \<or> line_full [a3, b3, c3, d3]"
    and c4: "line_empty [a4, b4, c4, d4] \<or> line_full [a4, b4, c4, d4]"
    by (simp_all add: B columns_explicit)
  have "\<not> (line_empty [a1, a2, a3, a4] \<and> line_empty [b1, b2, b3, b4] \<and>
           line_empty [c1, c2, c3, c4] \<and> line_empty [d1, d2, d3, d4])"
    using assms(2) by (auto simp: B line_empty_explicit eval_nat_numeral)
  with ra rb rc rd have "line_full [a1, a2, a3, a4] \<or> line_full [b1, b2, b3, b4] \<or>
      line_full [c1, c2, c3, c4] \<or> line_full [d1, d2, d3, d4]"
    by blast
  then have "\<not> line_empty [a1, b1, c1, d1] \<and> \<not> line_empty [a2, b2, c2, d2] \<and>
      \<not> line_empty [a3, b3, c3, d3] \<and> \<not> line_empty [a4, b4, c4, d4]"
    unfolding line_full_explicit line_empty_explicit by blast
  with c1 c2 c3 c4 have cf: "line_full [a1, b1, c1, d1]" "line_full [a2, b2, c2, d2]"
      "line_full [a3, b3, c3, d3]" "line_full [a4, b4, c4, d4]"
    by blast+
  then have "\<not> line_empty [a1, a2, a3, a4] \<and> \<not> line_empty [b1, b2, b3, b4] \<and>
      \<not> line_empty [c1, c2, c3, c4] \<and> \<not> line_empty [d1, d2, d3, d4]"
    unfolding line_full_explicit line_empty_explicit by blast
  with ra rb rc rd have rf: "line_full [a1, a2, a3, a4]" "line_full [b1, b2, b3, b4]"
      "line_full [c1, c2, c3, c4]" "line_full [d1, d2, d3, d4]"
    by blast+
  show ?thesis
    unfolding B columns_explicit using rf cf by simp
qed

lemma game_over_no_moves:
  assumes "wf_grid B" and "B \<noteq> replicate 4 (replicate 4 0)"
  shows "game_over B \<longleftrightarrow> get_possible_moves B = []"
proof -
  have len: "\<forall>row\<in>set B. length row = 4" "\<forall>col\<in>set (columns B). length col = 4"
    using assms(1) rotate_columns(4) [OF assms(1)] by (simp_all add: wf_grid_def list_all_iff)
  have "get_possible_moves B = [] \<longleftrightarrow>
      (\<forall>row\<in>set B. line_empty row \<or> line_full row) \<and>
      (\<forall>col\<in>set (columns B). line_empty col \<or> line_full col)"
    using len by (simp add: no_moves_iff [OF assms(1)] line_stuck_iff)
  also have "\<dots> \<longleftrightarrow> (\<forall>row\<in>set B. line_full row) \<and> (\<forall>col\<in>set (columns B). line_full col)"
    using stuck_lines_full [OF assms] by blast
  finally show ?thesis by (simp add: game_over_lines [OF assms(1)])
qed

text \<open>
  C2, as stated, fails on the board of sixteen zeros: it is a 4 by 4 board of zeros and
  powers of two, \<open>game_over\<close> is false on it (a row holds a zero), and no move changes
  it, so \<open>get_possible_moves\<close> is empty.
\<close>

theorem game_over_all_zero_counterexample:
  "wf_grid [[0, 0, 0, 0], [0, 0, 0, 0], [0, 0, 0, 0], [0, 0, 0, 0]] \<and>
   cells_ok [[0, 0, 0, 0], [0, 0, 0, 0], [0, 0, 0, 0], [0, 0, 0, 0]] \<and>
   \<not> game_over [[0, 0, 0, 0], [0, 0, 0, 0], [0, 0, 0, 0], [0, 0, 0, 0]] \<and>
   get_possible_moves [[0, 0, 0, 0], [0, 0, 0, 0], [0, 0, 0, 0], [0, 0, 0, 0]] = []"
proof -
  let ?Z = "[[0, 0, 0, 0], [0, 0, 0, 0], [0, 0, 0, 0], [0, 0, 0, 0 :: int]]"
  have w: "wf_grid ?Z" by (simp add: wf_grid_def)
  have "get_possible_moves ?Z = []"
    unfolding no_moves_iff [OF w] columns_explicit
    by (simp add: line_stuck_def row_fixed_iff)
  then show ?thesis
    using w by (simp add: game_over_explicit cells_ok_def cell_ok_def)
qed

text \<open>
  C2, amended. For every 4 by 4 board with at least one non-zero cell, \<open>game_over\<close> is
  true if and only if \<open>get_possible_moves\<close> returns the empty list. (The cells need not
  be powers of two for this.)
\<close>

theorem game_over_iff_no_moves:
  assumes "wf_grid B" and "B \<noteq> replicate 4 (replicate 4 0)"
  shows "game_over B \<longleftrightarrow> get_possible_moves B = []"
  using assms by (rule game_over_no_moves)

theorem game_over_iff_no_moves_witness:
  "wf_grid [[2, 4, 2, 4], [4, 2, 4, 2], [2, 4, 2, 4], [4, 2, 4, 2]] \<and>
   [[2, 4, 2, 4], [4, 2, 4, 2], [2, 4, 2, 4], [4, 2, 4, 2]] \<noteq> replicate 4 (replicate 4 (0 :: int)) \<and>
   game_over [[2, 4, 2, 4], [4, 2, 4, 2], [2, 4, 2, 4], [4, 2, 4, 2]] \<and>
   get_possible_moves [[2, 4, 2, 4], [4, 2, 4, 2], [2, 4, 2, 4], [4, 2, 4, 2]] = []"
  using game_over_iff_no_moves [of "[[2, 4, 2, 4], [4, 2, 4, 2], [2, 4, 2, 4], [4, 2, 4, 2]]"]
  by (simp add: wf_grid_def game_over_explicit eval_nat_numeral)

section \<open>The direction of a move\<close>

text \<open>
  C1. The claim is that \<open>move\<close> is the reference move \<open>move_ref\<close> in each of the four
  directions. The source does not do this for up and down: on a board with a 2 in the top
  left corner and a 2 in the bottom right corner (a board \<open>initialize_game\<close> can
  return), \<^verbatim>\<open>'up'\<close> brings both tiles to the bottom row, where the reference move
  brings them to the top row. (By \<open>move_as_ref\<close> the source's \<^verbatim>\<open>'up'\<close> is the
  reference's down and its \<^verbatim>\<open>'down'\<close> the reference's up, on every 4 by 4 board; left
  and right agree.)
\<close>

theorem move_up_slides_down:
  "initialize_game 0 True 14 True = [[2, 0, 0, 0], [0, 0, 0, 0], [0, 0, 0, 0], [0, 0, 0, 2]] \<and>
   move [[2, 0, 0, 0], [0, 0, 0, 0], [0, 0, 0, 0], [0, 0, 0, 2]] ''up'' =
     [[0, 0, 0, 0], [0, 0, 0, 0], [0, 0, 0, 0], [2, 0, 0, 2]] \<and>
   move_ref [[2, 0, 0, 0], [0, 0, 0, 0], [0, 0, 0, 0], [0, 0, 0, 2]] ''up'' =
     [[2, 0, 0, 2], [0, 0, 0, 0], [0, 0, 0, 0], [0, 0, 0, 0]]"
proof -
  have w: "wf_grid [[2, 0, 0, 0], [0, 0, 0, 0], [0, 0, 0, 0], [0, 0, 0, 2]]"
    by (simp add: wf_grid_def)
  have "move_ref [[2, 0, 0, 0], [0, 0, 0, 0], [0, 0, 0, 0], [0, 0, 0, 2]] ''down'' =
      [[0, 0, 0, 0], [0, 0, 0, 0], [0, 0, 0, 0], [2, 0, 0, 2]]"
    by (simp add: move_ref_def columns_explicit merge_left_row_explicit eval_nat_numeral)
  moreover have "move_ref [[2, 0, 0, 0], [0, 0, 0, 0], [0, 0, 0, 0], [0, 0, 0, 2]] ''up'' =
      [[2, 0, 0, 2], [0, 0, 0, 0], [0, 0, 0, 0], [0, 0, 0, 0]]"
    by (simp add: move_ref_def columns_explicit merge_left_row_explicit eval_nat_numeral)
  moreover have "initialize_game 0 True 14 True =
      [[2, 0, 0, 0], [0, 0, 0, 0], [0, 0, 0, 0], [0, 0, 0, 2]]"
    by (simp add: initialize_game_def add_random_tile_def empty_cells_def set_cell_def
        upt_0_4 eval_nat_numeral)
  ultimately show ?thesis using move_as_ref(3) [OF w] by simp
qed

section \<open>Moves keep the sum of the tiles: the claim\<close>

text \<open>
  C10. For every 4 by 4 board and every direction, the sum of the sixteen cells of
  \<open>move B direction\<close> is the sum of the sixteen cells of \<open>B\<close>.
\<close>

theorem move_preserves_sum:
  assumes "wf_grid B"
  shows "grid_sum (move B direction) = grid_sum B"
  using assms by (rule move_sum)

theorem move_preserves_sum_witness:
  "wf_grid [[2, 2, 0, 0], [4, 0, 4, 8], [0, 0, 0, 2], [2, 4, 8, 16]] \<and> grid_sum (move [[2, 2, 0, 0], [4, 0, 4, 8], [0, 0, 0, 2], [2, 4, 8, 16]] ''up'') = 52"
  using move_preserves_sum [of "[[2, 2, 0, 0], [4, 0, 4, 8], [0, 0, 0, 2], [2, 4, 8, 16]]" "''up''"]
  by (simp add: wf_grid_def grid_sum_def)

section \<open>Properties of the cells that a move keeps\<close>

text \<open>
  A property of cell values that holds of \<open>0\<close> and is kept by doubling holds of every
  cell after a move, if it holds of every cell before: a move only shifts cells, doubles
  them and fills with zeros.
\<close>

lemma merge_pairs_all:
  assumes "\<forall>v. P v \<longrightarrow> P (2 * v)" and "list_all P xs"
  shows "list_all P (merge_pairs xs)"
  using assms(2) by (induction xs rule: merge_pairs.induct) (use assms(1) in auto)

lemma merge_left_row_all:
  assumes dbl: "\<forall>v. P v \<longrightarrow> P (2 * v)" and zero: "P 0"
    and len: "length row \<le> 4" and row: "list_all P row"
  shows "list_all P (merge_left_row row)"
proof -
  have "list_all P (filter (\<lambda>tile. tile \<noteq> 0) row)"
    using row by (simp add: list_all_iff)
  then have "list_all P (merge_pairs (filter (\<lambda>tile. tile \<noteq> 0) row))"
    by (rule merge_pairs_all [OF dbl])
  moreover have "list_all P (replicate n 0)" for n
    by (induction n) (simp_all add: zero)
  ultimately show ?thesis
    by (simp add: merge_left_row_spec [OF len] merge_left_spec_def Let_def)
qed

lemma all_cells_map:
  assumes "list_all (list_all P) B"
    and "\<And>row. row \<in> set B \<Longrightarrow> list_all P row \<Longrightarrow> list_all P (f row)"
  shows "list_all (list_all P) (map f B)"
  using assms by (simp add: list_all_iff)

lemma all_cells_merge_left:
  assumes dbl: "\<forall>v. P v \<longrightarrow> P (2 * v)" and zero: "P 0"
    and wf: "wf_grid B" and cells: "list_all (list_all P) B"
  shows "list_all (list_all P) (map merge_left_row B)"
proof (rule all_cells_map [OF cells])
  fix row
  assume "row \<in> set B" and ok: "list_all P row"
  with wf have "length row \<le> 4" by (simp add: wf_grid_def list_all_iff)
  then show "list_all P (merge_left_row row)"
    using ok by (rule merge_left_row_all [OF dbl zero])
qed

lemma all_cells_map_rev: "list_all (list_all P) B \<Longrightarrow> list_all (list_all P) (map rev B)"
  by (rule all_cells_map) (simp_all add: list_all_iff)

lemma all_cells_columns:
  assumes "wf_grid B" and "list_all (list_all P) B"
  shows "list_all (list_all P) (columns B)"
proof -
  from wf_grid_explicit [OF assms(1)] obtain a1 a2 a3 a4 b1 b2 b3 b4 c1 c2 c3 c4 d1 d2 d3 d4 where
    B: "B = [[a1, a2, a3, a4], [b1, b2, b3, b4], [c1, c2, c3, c4], [d1, d2, d3, d4]]" by blast
  show ?thesis using assms(2) by (simp add: B columns_explicit)
qed

lemma wf_move_ref:
  assumes "wf_grid B"
  shows "wf_grid (move_ref B direction)"
proof -
  have c: "wf_grid (columns B)" using assms by (rule rotate_columns(4))
  show ?thesis
    unfolding move_ref_def
    using assms c rotate_columns(4) [OF wf_merge_left [OF c]]
      rotate_columns(4) [OF wf_map_rev [OF wf_merge_left [OF wf_map_rev [OF c]]]]
      wf_merge_left [OF assms] wf_map_rev [OF wf_merge_left [OF wf_map_rev [OF assms]]]
    by simp
qed

lemma all_cells_move_ref:
  assumes dbl: "\<forall>v. P v \<longrightarrow> P (2 * v)" and zero: "P 0"
    and wf: "wf_grid B" and cells: "list_all (list_all P) B"
  shows "list_all (list_all P) (move_ref B direction)"
proof -
  note merged = all_cells_merge_left [OF dbl zero]
  have c: "wf_grid (columns B)" using wf by (rule rotate_columns(4))
  have ck: "list_all (list_all P) (columns B)" using wf cells by (rule all_cells_columns)
  have up: "list_all (list_all P) (columns (map merge_left_row (columns B)))"
    by (rule all_cells_columns [OF wf_merge_left [OF c] merged [OF c ck]])
  have rev_line: "list_all (list_all P) (map rev (map merge_left_row (map rev X)))"
    if "wf_grid X" and "list_all (list_all P) X" for X
    by (rule all_cells_map_rev
        [OF merged [OF wf_map_rev [OF that(1)] all_cells_map_rev [OF that(2)]]])
  have down: "list_all (list_all P) (columns (map rev (map merge_left_row (map rev (columns B)))))"
    by (rule all_cells_columns
        [OF wf_map_rev [OF wf_merge_left [OF wf_map_rev [OF c]]] rev_line [OF c ck]])
  have right: "list_all (list_all P) (map rev (map merge_left_row (map rev B)))"
    by (rule rev_line [OF wf cells])
  show ?thesis
    unfolding move_ref_def
    using up down right merged [OF wf cells] cells by simp
qed

lemma all_cells_move:
  assumes "\<forall>v. P v \<longrightarrow> P (2 * v)" and "P 0" and "wf_grid B" and "list_all (list_all P) B"
  shows "list_all (list_all P) (move B direction)"
  unfolding move_cases [OF assms(3)] using assms by (rule all_cells_move_ref)

lemma wf_move: "wf_grid B \<Longrightarrow> wf_grid (move B direction)"
  by (simp only: move_cases wf_move_ref)

lemma list_update_all:
  assumes "list_all P xs" and "P v"
  shows "list_all P (xs[c := v])"
  using assms set_update_subset_insert [of xs c v] by (auto simp: list_all_iff)

lemma set_cell_all:
  assumes "list_all (list_all P) B" and "P v"
  shows "list_all (list_all P) (set_cell B r c v)"
proof (cases "r < length B")
  case True
  with assms(1) have "list_all P (B ! r)"
    by (simp add: list_all_length)
  then have "list_all P ((B ! r)[c := v])"
    using assms(2) by (rule list_update_all)
  then show ?thesis
    using assms(1) set_update_subset_insert [of B r "(B ! r)[c := v]"]
    by (auto simp: set_cell_def list_all_iff)
next
  case False
  then have "B[r := (B ! r)[c := v]] = B" by (simp add: list_update_beyond)
  with assms(1) show ?thesis by (simp add: set_cell_def)
qed

lemma set_cell_wf: "wf_grid B \<Longrightarrow> wf_grid (set_cell B r c v)"
  by (cases "r < length B") (auto simp: set_cell_def wf_grid_def list_all_length nth_list_update)

section \<open>The search stays on boards on which the source raises no exception\<close>

lemma board_ok_cells: "board_ok B \<longleftrightarrow> wf_grid B \<and> list_all (list_all (\<lambda>v. 0 \<le> v)) B"
  by (auto simp: board_ok_def list_all_iff)

lemma board_ok_move:
  assumes "board_ok B"
  shows "board_ok (move B direction)"
proof -
  from assms have w: "wf_grid B" and c: "list_all (list_all (\<lambda>v. 0 \<le> v)) B"
    by (simp_all add: board_ok_cells)
  have "list_all (list_all (\<lambda>v. 0 \<le> v)) (move B direction)"
    by (rule all_cells_move [of "\<lambda>v. 0 \<le> v", OF _ _ w c]) simp_all
  with wf_move [OF w] show ?thesis by (simp add: board_ok_cells)
qed

lemma board_ok_possible_moves:
  assumes "board_ok B" and "(direction, new_grid) \<in> set (get_possible_moves B)"
  shows "board_ok new_grid"
  using assms board_ok_move [of B] by (auto simp: get_possible_moves_def split: if_splits)

lemma board_ok_set_cell:
  assumes "board_ok B" and "0 \<le> v"
  shows "board_ok (set_cell B r c v)"
  using assms set_cell_all [of "\<lambda>v. 0 \<le> v" B v r c] set_cell_wf [of B r c v]
  by (simp add: board_ok_cells)

lemma board_ok_outcomes:
  assumes "board_ok B" and "((r, c), v, p) \<in> set (outcomes F cells)"
  shows "board_ok (set_cell B r c v)"
proof -
  from assms(2) have "v = 2 \<or> v = 4" by (auto simp: outcomes_def)
  then have "0 \<le> v" by auto
  with assms(1) show ?thesis by (rule board_ok_set_cell)
qed

section \<open>Cells stay zero or a power of two\<close>

text \<open>\<open>is_pow2\<close> is: a power of two with a positive exponent.\<close>

lemma is_pow2_double: "is_pow2 v \<Longrightarrow> is_pow2 (2 * v)"
  by (subst is_pow2.simps) (auto simp: is_pow2.simps [of v] split: if_splits)

lemma is_pow2_power: "0 < n \<Longrightarrow> is_pow2 (2 ^ n)"
proof (induction n)
  case 0
  then show ?case by simp
next
  case (Suc n)
  show ?case
  proof (cases "n = 0")
    case True
    then show ?thesis by (simp add: is_pow2.simps)
  next
    case False
    with Suc.IH have "is_pow2 (2 ^ n)" by simp
    then show ?thesis using is_pow2_double by simp
  qed
qed

lemma is_pow2_is_power: "is_pow2 v \<Longrightarrow> \<exists>n. 0 < n \<and> v = 2 ^ n"
proof (induction v rule: is_pow2.induct)
  case (1 v)
  show ?case
  proof (cases "v = 2")
    case True
    then have "0 < (1::nat) \<and> v = 2 ^ (1::nat)" by simp
    then show ?thesis by blast
  next
    case False
    from "1.prems" have v: "\<not> v < 2" "v mod 2 = 0" "is_pow2 (v div 2)"
      using False by (simp_all add: is_pow2.simps [of v] split: if_splits)
    from "1.IH" [OF v(1) False v(3)] obtain n where n: "0 < n" "v div 2 = 2 ^ n" by blast
    from v(2) have "v = 2 * (v div 2)" by presburger
    with n have "0 < Suc n \<and> v = 2 ^ Suc n" by simp
    then show ?thesis by blast
  qed
qed

lemma is_pow2_iff: "is_pow2 v \<longleftrightarrow> (\<exists>n. 0 < n \<and> v = 2 ^ n)"
  using is_pow2_power is_pow2_is_power by blast

lemma cell_ok_double: "cell_ok v \<Longrightarrow> cell_ok (2 * v)"
  by (auto simp: cell_ok_def is_pow2_double)

lemma cell_ok_2_4: "cell_ok 2" "cell_ok 4" "cell_ok 0"
  by (simp_all add: cell_ok_def is_pow2.simps)

lemma cells_ok_move:
  assumes "wf_grid B" and "cells_ok B"
  shows "cells_ok (move B direction)"
proof -
  have "\<forall>v. cell_ok v \<longrightarrow> cell_ok (2 * v)" by (simp add: cell_ok_double)
  from all_cells_move [OF this cell_ok_2_4(3) assms(1)] assms(2) show ?thesis
    by (simp add: cells_ok_def)
qed

lemma add_random_tile_ok:
  assumes "cells_ok B"
  shows "cells_ok (add_random_tile B pick small)"
  using assms set_cell_all [of cell_ok B]
  by (auto simp: add_random_tile_def Let_def cells_ok_def cell_ok_2_4 split: prod.splits)

lemma add_random_tile_wf: "wf_grid B \<Longrightarrow> wf_grid (add_random_tile B pick small)"
  by (auto simp: add_random_tile_def Let_def set_cell_wf split: prod.splits)

lemma zero_grid_ok: "cells_ok (replicate 4 (replicate 4 0))" "wf_grid (replicate 4 (replicate 4 0))"
  by (simp_all add: cells_ok_def wf_grid_def list_all_length cell_ok_2_4)

text \<open>
  C8. On a 4 by 4 board whose cells are each zero or a power of two (at least 2), a move
  in any direction, a random tile (whatever the two random draws are) and the initial
  board all have cells that are zero or such a power of two, and are 4 by 4 again.
\<close>

theorem power_of_two_invariant:
  assumes "wf_grid B" and "cells_ok B"
  shows "cells_ok (move B direction) \<and> wf_grid (move B direction) \<and>
         cells_ok (add_random_tile B pick small) \<and> wf_grid (add_random_tile B pick small) \<and>
         cells_ok (initialize_game pick1 small1 pick2 small2) \<and>
         wf_grid (initialize_game pick1 small1 pick2 small2)"
  using assms
  by (simp add: cells_ok_move wf_move add_random_tile_ok add_random_tile_wf
      initialize_game_def zero_grid_ok)

theorem power_of_two_invariant_witness:
  "wf_grid [[2, 2, 0, 0], [4, 0, 4, 8], [0, 0, 0, 2], [2, 4, 8, 16]] \<and>
   cells_ok [[2, 2, 0, 0], [4, 0, 4, 8], [0, 0, 0, 2], [2, 4, 8, 16]] \<and>
   cells_ok (move [[2, 2, 0, 0], [4, 0, 4, 8], [0, 0, 0, 2], [2, 4, 8, 16]] ''left'') \<and>
   cells_ok (add_random_tile [[2, 2, 0, 0], [4, 0, 4, 8], [0, 0, 0, 2], [2, 4, 8, 16]] 0 True) \<and>
   cells_ok (initialize_game 3 True 5 False)"
  using power_of_two_invariant
    [of "[[2, 2, 0, 0], [4, 0, 4, 8], [0, 0, 0, 2], [2, 4, 8, 16]]" "''left''" 0 True 3 True 5 False]
  by (simp add: wf_grid_def cells_ok_def cell_ok_def is_pow2.simps)

section \<open>The search returns\<close>

lemma max_loop_returns:
  assumes "\<And>g t. \<exists>r t'. child g t = Some (r, t')"
  shows "\<exists>r t'. max_loop F child moves max_score best tt = Some (r, t')"
proof (induction moves arbitrary: max_score best tt)
  case Nil
  show ?case by simp
next
  case (Cons m moves)
  obtain direction new_grid where m: "m = (direction, new_grid)" by (cases m)
  from assms [of new_grid tt] obtain score dir t' where
    c: "child new_grid tt = Some ((score, dir), t')" by force
  show ?case
    using Cons.IH [of score "Some direction" t'] Cons.IH [of max_score best t']
    by (simp add: m c)
qed

lemma chance_loop_returns:
  assumes "\<And>g t. \<exists>r t'. child g t = Some (r, t')"
  shows "\<exists>s t'. chance_loop F child grid n outs score tt = Some (s, t')"
proof (induction outs arbitrary: score tt)
  case Nil
  show ?case by simp
next
  case (Cons out outs)
  obtain r c v p where out: "out = ((r, c), v, p)" by (cases out) auto
  from assms [of "set_cell grid r c v" tt] obtain tile_score dir t' where
    c: "child (set_cell grid r c v) tt = Some ((tile_score, dir), t')" by force
  show ?case
    using Cons.IH [of "f_add F score (f_mul F (f_div F p (f_int F (int n))) tile_score)" t']
    by (simp add: out c)
qed

lemma expectimax_returns:
  "depth \<le> max_depth \<Longrightarrow> nat (max_depth - depth) < fuel \<Longrightarrow>
   \<exists>r t'. expectimax fuel F grid depth player_turn max_depth tt = Some (r, t')"
proof (induction fuel arbitrary: grid depth player_turn tt)
  case 0
  then show ?case by simp
next
  case (Suc fuel)
  show ?case
  proof (cases "tt (grid, depth, player_turn)")
    case (Some cached)
    then show ?thesis by simp
  next
    case None
    show ?thesis
    proof (cases "depth = max_depth \<or> game_over grid")
      case True
      with None show ?thesis by (simp add: Let_def)
    next
      case False
      with Suc.prems have d: "depth + 1 \<le> max_depth" "nat (max_depth - (depth + 1)) < fuel"
        by auto
      have child: "\<exists>r t'. expectimax fuel F g (depth + 1) pt max_depth t = Some (r, t')" for g pt t
        using Suc.IH [OF d] .
      show ?thesis
      proof (cases player_turn)
        case True
        from max_loop_returns [of "\<lambda>new_grid t. expectimax fuel F new_grid (depth + 1) False max_depth t"
            F "get_possible_moves grid" "neg_inf F" None tt] child
        obtain r t' where "max_loop F (\<lambda>new_grid t. expectimax fuel F new_grid (depth + 1) False max_depth t)
            (get_possible_moves grid) (neg_inf F) None tt = Some (r, t')" by blast
        with None False True show ?thesis by (cases r) simp
      next
        case pf: False
        from chance_loop_returns [of "\<lambda>grid_new t. expectimax fuel F grid_new (depth + 1) True max_depth t"
            F grid "length (empty_cells grid)" "outcomes F (empty_cells grid)" "f_int F 0" tt] child
        obtain s t' where "chance_loop F (\<lambda>grid_new t. expectimax fuel F grid_new (depth + 1) True max_depth t)
            grid (length (empty_cells grid)) (outcomes F (empty_cells grid)) (f_int F 0) tt = Some (s, t')"
          by blast
        with None False pf show ?thesis by (simp add: Let_def)
      qed
    qed
  qed
qed

section \<open>The transposition table does not change the result\<close>

lemma expectimax_nomemo_fuel:
  "depth \<le> max_depth \<Longrightarrow> nat (max_depth - depth) < fuel \<Longrightarrow> nat (max_depth - depth) < fuel' \<Longrightarrow>
   expectimax_nomemo fuel F grid depth player_turn max_depth =
   expectimax_nomemo fuel' F grid depth player_turn max_depth"
proof (induction fuel arbitrary: fuel' grid depth player_turn)
  case 0
  then show ?case by simp
next
  case (Suc fuel)
  from Suc.prems(3) obtain k where k: "fuel' = Suc k" by (cases fuel') auto
  show ?case
  proof (cases "depth = max_depth \<or> game_over grid")
    case True
    then show ?thesis by (simp add: k)
  next
    case False
    with Suc.prems k have d: "depth + 1 \<le> max_depth" "nat (max_depth - (depth + 1)) < fuel"
      "nat (max_depth - (depth + 1)) < k"
      by auto
    have ch: "expectimax_nomemo fuel F g (depth + 1) pt max_depth =
          expectimax_nomemo k F g (depth + 1) pt max_depth" for g pt
      using Suc.IH [OF d] .
    show ?thesis using False by (simp add: k ch Let_def)
  qed
qed

lemma table_ok_empty: "table_ok F max_depth Map.empty"
  by (simp add: table_ok_def)

lemma table_ok_lookup:
  assumes "table_ok F max_depth tt" and "tt (grid, depth, player_turn) = Some r"
    and "nat (max_depth - depth) < fuel"
  shows "expectimax_nomemo fuel F grid depth player_turn max_depth = Some r"
proof -
  from assms(1,2) have d: "depth \<le> max_depth"
    and v: "expectimax_nomemo (Suc (nat (max_depth - depth))) F grid depth player_turn max_depth = Some r"
    unfolding table_ok_def by blast+
  show ?thesis
    using expectimax_nomemo_fuel [OF d assms(3), of "Suc (nat (max_depth - depth))" F grid player_turn] v
    by simp
qed

lemma table_ok_update:
  assumes "table_ok F max_depth tt" and "depth \<le> max_depth" and "nat (max_depth - depth) < fuel"
    and "expectimax_nomemo fuel F grid depth player_turn max_depth = Some r"
  shows "table_ok F max_depth (tt((grid, depth, player_turn) \<mapsto> r))"
proof -
  have "expectimax_nomemo (Suc (nat (max_depth - depth))) F grid depth player_turn max_depth = Some r"
    using expectimax_nomemo_fuel [OF assms(2,3), of "Suc (nat (max_depth - depth))" F grid player_turn]
      assms(4) by simp
  with assms(1,2) show ?thesis
    unfolding table_ok_def by (auto split: if_splits)
qed

lemma max_loop_nomemo_eq:
  assumes child: "\<And>g t. P t \<Longrightarrow> \<exists>r t'. child g t = Some (r, t') \<and> pchild g = Some r \<and> P t'"
    and "P tt"
  shows "\<exists>r t'. max_loop F child moves max_score best tt = Some (r, t') \<and>
                max_loop_nomemo F pchild moves max_score best = Some r \<and> P t'"
  using assms(2)
proof (induction moves arbitrary: max_score best tt)
  case Nil
  then show ?case by simp
next
  case (Cons m moves)
  obtain direction new_grid where m: "m = (direction, new_grid)" by (cases m)
  from child [OF Cons.prems, of new_grid] obtain score dir t' where
    c: "child new_grid tt = Some ((score, dir), t')" "pchild new_grid = Some (score, dir)" "P t'"
    by force
  show ?case
    using Cons.IH [OF c(3), of score "Some direction"] Cons.IH [OF c(3), of max_score best]
    by (simp add: m c)
qed

lemma chance_loop_nomemo_eq:
  assumes child: "\<And>g t. P t \<Longrightarrow> \<exists>r t'. child g t = Some (r, t') \<and> pchild g = Some r \<and> P t'"
    and "P tt"
  shows "\<exists>s t'. chance_loop F child grid n outs score tt = Some (s, t') \<and>
                chance_loop_nomemo F pchild grid n outs score = Some s \<and> P t'"
  using assms(2)
proof (induction outs arbitrary: score tt)
  case Nil
  then show ?case by simp
next
  case (Cons out outs)
  obtain r c v p where out: "out = ((r, c), v, p)" by (cases out) auto
  from child [OF Cons.prems, of "set_cell grid r c v"] obtain tile_score dir t' where
    c: "child (set_cell grid r c v) tt = Some ((tile_score, dir), t')"
      "pchild (set_cell grid r c v) = Some (tile_score, dir)" "P t'"
    by force
  show ?case
    using Cons.IH [OF c(3), of "f_add F score (f_mul F (f_div F p (f_int F (int n))) tile_score)"]
    by (simp add: out c)
qed

lemma expectimax_memo_nomemo:
  "depth \<le> max_depth \<Longrightarrow> nat (max_depth - depth) < fuel \<Longrightarrow> table_ok F max_depth tt \<Longrightarrow>
   \<exists>r t'. expectimax fuel F grid depth player_turn max_depth tt = Some (r, t') \<and>
          expectimax_nomemo fuel F grid depth player_turn max_depth = Some r \<and>
          table_ok F max_depth t'"
proof (induction fuel arbitrary: grid depth player_turn tt)
  case 0
  then show ?case by simp
next
  case (Suc fuel)
  note ok = Suc.prems(3)
  show ?case
  proof (cases "tt (grid, depth, player_turn)")
    case (Some cached)
    with table_ok_lookup [OF ok Some Suc.prems(2)] ok show ?thesis by simp
  next
    case None
    show ?thesis
    proof (cases "depth = max_depth \<or> game_over grid")
      case True
      have v: "expectimax_nomemo (Suc fuel) F grid depth player_turn max_depth =
          Some (combined_heuristic F grid, None)"
        using True by simp
      from table_ok_update [OF ok Suc.prems(1,2) v] None True v show ?thesis
        by (simp add: Let_def)
    next
      case False
      with Suc.prems have d: "depth + 1 \<le> max_depth" "nat (max_depth - (depth + 1)) < fuel"
        by auto
      have child: "\<exists>r t'. expectimax fuel F g (depth + 1) pt max_depth t = Some (r, t') \<and>
          expectimax_nomemo fuel F g (depth + 1) pt max_depth = Some r \<and> table_ok F max_depth t'"
        if "table_ok F max_depth t" for g pt t
        using Suc.IH [OF d that] .
      show ?thesis
      proof (cases player_turn)
        case True
        from max_loop_nomemo_eq [of "table_ok F max_depth"
            "\<lambda>new_grid t. expectimax fuel F new_grid (depth + 1) False max_depth t"
            "\<lambda>new_grid. expectimax_nomemo fuel F new_grid (depth + 1) False max_depth"
            tt F "get_possible_moves grid" "neg_inf F" None] child ok
        obtain r t' where
          m: "max_loop F (\<lambda>new_grid t. expectimax fuel F new_grid (depth + 1) False max_depth t)
                (get_possible_moves grid) (neg_inf F) None tt = Some (r, t')"
          and p: "max_loop_nomemo F (\<lambda>new_grid. expectimax_nomemo fuel F new_grid (depth + 1) False max_depth)
                (get_possible_moves grid) (neg_inf F) None = Some r"
          and ok': "table_ok F max_depth t'"
          by blast
        have v: "expectimax_nomemo (Suc fuel) F grid depth player_turn max_depth = Some r"
          using False True p by simp
        from table_ok_update [OF ok' Suc.prems(1,2) v] None False True m v show ?thesis
          by (cases r) simp
      next
        case pf: False
        show ?thesis
        proof (cases "empty_cells grid = []")
          case True
          have v: "expectimax_nomemo (Suc fuel) F grid depth player_turn max_depth =
              Some (combined_heuristic F grid, None)"
            using False pf True by simp
          from table_ok_update [OF ok Suc.prems(1,2) v] None False pf True v show ?thesis
            by (simp add: Let_def)
        next
          case ne: False
          from chance_loop_nomemo_eq [of "table_ok F max_depth"
              "\<lambda>grid_new t. expectimax fuel F grid_new (depth + 1) True max_depth t"
              "\<lambda>grid_new. expectimax_nomemo fuel F grid_new (depth + 1) True max_depth"
              tt F grid "length (empty_cells grid)" "outcomes F (empty_cells grid)" "f_int F 0"]
            child ok
          obtain s t' where
            m: "chance_loop F (\<lambda>grid_new t. expectimax fuel F grid_new (depth + 1) True max_depth t)
                  grid (length (empty_cells grid)) (outcomes F (empty_cells grid)) (f_int F 0) tt
                = Some (s, t')"
            and p: "chance_loop_nomemo F (\<lambda>grid_new. expectimax_nomemo fuel F grid_new (depth + 1) True max_depth)
                  grid (length (empty_cells grid)) (outcomes F (empty_cells grid)) (f_int F 0)
                = Some s"
            and ok': "table_ok F max_depth t'"
            by blast
          have v: "expectimax_nomemo (Suc fuel) F grid depth player_turn max_depth = Some (s, None)"
            using False pf ne p by (simp add: Let_def)
          from table_ok_update [OF ok' Suc.prems(1,2) v] None False pf ne m v show ?thesis
            by (simp add: Let_def)
        qed
      qed
    qed
  qed
qed

section \<open>Claims about the search\<close>

text \<open>
  C9. Every recursive call of \<open>expectimax\<close> is made with \<open>depth + 1\<close> (see its
  definition). From a depth not above \<open>max_depth\<close>, on any 4 by 4 board without
  negative cells, with any node kind and any table, the call returns as soon as the
  bound on the recursion depth exceeds \<open>max_depth - depth\<close>: at most
  \<open>max_depth - depth + 1\<close> calls are ever nested. The loops inside a call
  (\<open>merge_loop\<close>, \<open>scan\<close>, \<open>zip_star\<close>) are total functions.
\<close>

theorem search_terminates:
  assumes "board_ok grid" and "depth \<le> max_depth" and "nat (max_depth - depth) < fuel"
  shows "\<exists>r tt'. expectimax fuel F grid depth player_turn max_depth tt = Some (r, tt')"
  using assms(2,3) by (rule expectimax_returns)

theorem search_terminates_witness:
  "board_ok [[2, 2, 0, 0], [4, 0, 4, 8], [0, 0, 0, 2], [2, 4, 8, 16]] \<and>
   (0 :: int) \<le> 3 \<and> nat (3 - 0) < 4 \<and>
   (\<exists>r tt'. expectimax 4 exact_ops [[2, 2, 0, 0], [4, 0, 4, 8], [0, 0, 0, 2], [2, 4, 8, 16]]
      0 True 3 Map.empty = Some (r, tt'))"
  using search_terminates [of "[[2, 2, 0, 0], [4, 0, 4, 8], [0, 0, 0, 2], [2, 4, 8, 16]]"
      0 3 4 exact_ops True Map.empty]
  by (simp add: board_ok_def wf_grid_def)

text \<open>
  C5. Started on the empty table, from a depth not above \<open>max_depth\<close>, on a 4 by 4
  board without negative cells, \<open>expectimax\<close> returns the pair of score and direction
  that the same recursion without the table returns; and every entry of the table it
  leaves is the result of that recursion for the entry's own key (board, depth, node
  kind).
\<close>

theorem memo_transparent:
  assumes "board_ok grid" and "depth \<le> max_depth" and "nat (max_depth - depth) < fuel"
  shows "\<exists>r tt'. expectimax fuel F grid depth player_turn max_depth Map.empty = Some (r, tt') \<and>
           expectimax_nomemo fuel F grid depth player_turn max_depth = Some r \<and>
           table_ok F max_depth tt'"
  using expectimax_memo_nomemo [OF assms(2,3) table_ok_empty] .

theorem memo_transparent_witness:
  "board_ok [[2, 2, 0, 0], [4, 0, 4, 8], [0, 0, 0, 2], [2, 4, 8, 16]] \<and>
   (0 :: int) \<le> 3 \<and> nat (3 - 0) < 4 \<and>
   (\<exists>r tt'. expectimax 4 exact_ops [[2, 2, 0, 0], [4, 0, 4, 8], [0, 0, 0, 2], [2, 4, 8, 16]]
       0 True 3 Map.empty = Some (r, tt') \<and>
     expectimax_nomemo 4 exact_ops [[2, 2, 0, 0], [4, 0, 4, 8], [0, 0, 0, 2], [2, 4, 8, 16]]
       0 True 3 = Some r)"
  using memo_transparent [of "[[2, 2, 0, 0], [4, 0, 4, 8], [0, 0, 0, 2], [2, 4, 8, 16]]"
      0 3 4 exact_ops True]
  by (auto simp: board_ok_def wf_grid_def)

lemma nomemo_absent_direction:
  assumes "game_over grid \<or> depth = max_depth \<or> (player_turn \<and> get_possible_moves grid = [])"
  shows "\<exists>score. expectimax_nomemo (Suc fuel) F grid depth player_turn max_depth = Some (score, None)"
  using assms by auto

text \<open>
  C6. When the board is terminal, or the depth limit is reached, or a maximizing node has
  no candidate move (the score stays at the initial \<open>neg_inf\<close>), \<open>expectimax\<close> returns
  no direction. This holds on the empty table and on every table whose entries were
  computed with this \<open>max_depth\<close> (\<open>table_ok\<close>), as the search itself leaves them; the
  top-level call on a terminal board is the case \<open>depth = 0\<close>, \<open>player_turn\<close>.
\<close>

theorem absent_direction:
  assumes "table_ok F max_depth tt" and "depth \<le> max_depth" and "nat (max_depth - depth) < fuel"
    and "board_ok grid"
    and "game_over grid \<or> depth = max_depth \<or> (player_turn \<and> get_possible_moves grid = [])"
  shows "\<exists>score tt'. expectimax fuel F grid depth player_turn max_depth tt = Some ((score, None), tt')"
proof -
  from assms(3) obtain k where k: "fuel = Suc k" by (cases fuel) auto
  from nomemo_absent_direction [OF assms(5), of k F] obtain score where
    "expectimax_nomemo fuel F grid depth player_turn max_depth = Some (score, None)"
    unfolding k by blast
  with expectimax_memo_nomemo [OF assms(2,3,1), of grid player_turn] show ?thesis by auto
qed

theorem absent_direction_witness:
  "table_ok exact_ops 3 Map.empty \<and> (0 :: int) \<le> 3 \<and> nat (3 - 0) < 4 \<and>
   board_ok [[2, 4, 2, 4], [4, 2, 4, 2], [2, 4, 2, 4], [4, 2, 4, 2]] \<and>
   game_over [[2, 4, 2, 4], [4, 2, 4, 2], [2, 4, 2, 4], [4, 2, 4, 2]] \<and>
   (\<exists>score tt'. expectimax 4 exact_ops [[2, 4, 2, 4], [4, 2, 4, 2], [2, 4, 2, 4], [4, 2, 4, 2]]
      0 True 3 Map.empty = Some ((score, None), tt'))"
proof -
  have g: "game_over [[2, 4, 2, 4], [4, 2, 4, 2], [2, 4, 2, 4], [4, 2, 4, 2]]"
    by (simp add: game_over_explicit)
  show ?thesis
    using absent_direction [of exact_ops 3 Map.empty 0 4
        "[[2, 4, 2, 4], [4, 2, 4, 2], [2, 4, 2, 4], [4, 2, 4, 2]]" True] g
    by (simp add: table_ok_empty board_ok_def wf_grid_def)
qed

section \<open>The combined heuristic\<close>

lemma count_list_zero: "int (count_list row 0) = int (length (filter (\<lambda>v. v = 0) row))"
  by (induction row) auto

lemma empty_tile_count:
  "empty_tile_heuristic grid = int (length (filter (\<lambda>v. v = 0) (concat grid)))"
  by (induction grid) (simp_all add: empty_tile_heuristic_def count_list_zero)

lemma max_of_Max: "xs \<noteq> [] \<Longrightarrow> max_of xs = Max (set xs)"
proof (cases xs)
  case Nil
  then show "xs \<noteq> [] \<Longrightarrow> ?thesis" by simp
next
  case (Cons x rest)
  show ?thesis
    unfolding Cons max_of_def using Max.set_eq_fold [of x rest] by simp
qed

lemma max_of_rows:
  assumes "grid \<noteq> []" and "\<forall>row\<in>set grid. row \<noteq> []"
  shows "max_of (map max_of grid) = Max (set (concat grid))"
proof -
  let ?M = "max_of (map max_of grid)"
  have M: "?M = Max (set (map max_of grid))"
    using assms(1) by (simp add: max_of_Max)
  have fin: "finite (set (map max_of grid))" by simp
  have ne: "set (map max_of grid) \<noteq> {}" using assms(1) by simp
  from Max_in [OF fin ne] M obtain row where row: "row \<in> set grid" "?M = max_of row"
    by auto
  with assms(2) have "?M = Max (set row)" by (simp add: max_of_Max)
  moreover have "Max (set row) \<in> set row" using row(1) assms(2) by (intro Max_in) auto
  ultimately have mem: "?M \<in> set (concat grid)" using row(1) by auto
  have "v \<le> ?M" if "v \<in> set (concat grid)" for v
  proof -
    from that obtain r where r: "r \<in> set grid" "v \<in> set r" by auto
    then have "v \<le> Max (set r)" by (intro Max_ge) auto
    also have "\<dots> = max_of r" using r(1) assms(2) by (simp add: max_of_Max)
    also have "\<dots> \<le> ?M" unfolding M using r(1) by (intro Max_ge) auto
    finally show ?thesis .
  qed
  with mem show ?thesis by (intro Max_eqI [symmetric]) auto
qed

lemma max_tile_formula:
  assumes "wf_grid grid" and "list_all (\<lambda>v. 0 \<le> v) (concat grid)"
  shows "max_tile_heuristic F grid =
         (if list_all (\<lambda>v. v = 0) (concat grid) then f_int F 0
          else f_log2 F (Max (set (concat grid))))"
proof -
  have ne: "grid \<noteq> []" "\<forall>row\<in>set grid. row \<noteq> []"
    using assms(1) by (auto simp: wf_grid_def list_all_iff)
  have M: "max_of (map max_of grid) = Max (set (concat grid))"
    by (rule max_of_rows [OF ne])
  have "Max (set (concat grid)) = 0 \<longleftrightarrow> list_all (\<lambda>v. v = 0) (concat grid)"
  proof
    assume z: "Max (set (concat grid)) = 0"
    have "v = 0" if "v \<in> set (concat grid)" for v
    proof -
      from that have "v \<le> Max (set (concat grid))" by (intro Max_ge) auto
      moreover from that assms(2) have "0 \<le> v" by (auto simp: list_all_iff)
      ultimately show ?thesis using z by simp
    qed
    then show "list_all (\<lambda>v. v = 0) (concat grid)" by (simp add: list_all_iff)
  next
    assume "list_all (\<lambda>v. v = 0) (concat grid)"
    then have z: "\<forall>v\<in>set (concat grid). v = 0" by (simp add: list_all_iff)
    from ne(1) obtain row where row: "row \<in> set grid" by (cases grid) auto
    with ne(2) obtain w where "w \<in> set row" by (cases row) auto
    with row have w: "w \<in> set (concat grid)" by auto
    from z w have "w = 0" by (rule bspec)
    with w have mem: "0 \<in> set (concat grid)" by simp
    have le: "y \<le> 0" if "y \<in> set (concat grid)" for y
      using bspec [OF z that] by simp
    show "Max (set (concat grid)) = 0"
      by (rule Max_eqI [OF finite_set le mem])
  qed
  then show ?thesis by (simp add: max_tile_heuristic_def M)
qed

text \<open>
  C7. On a 4 by 4 board without negative cells, \<open>combined_heuristic\<close> is \<open>2.7\<close> times the
  number of zero cells, plus \<open>1.0\<close> times the base-2 logarithm of the largest cell
  (\<open>0\<close> when every cell is zero), plus \<open>0.1\<close> times \<open>smoothness_heuristic\<close>, plus \<open>1.0\<close>
  times \<open>monotonicity_heuristic\<close>, added from left to right as the source does; this holds
  whatever the float operations compute.
\<close>

theorem combined_heuristic_formula:
  assumes "board_ok B"
  shows "combined_heuristic F B =
     f_add F
       (f_add F
          (f_add F
             (f_mul F (c_2_7 F) (f_int F (int (length (filter (\<lambda>v. v = 0) (concat B))))))
             (f_mul F (c_1_0 F)
                (if list_all (\<lambda>v. v = 0) (concat B) then f_int F 0
                 else f_log2 F (Max (set (concat B))))))
          (f_mul F (c_0_1 F) (smoothness_heuristic F B)))
       (f_mul F (c_1_0 F) (monotonicity_heuristic F B))"
  using assms
  by (simp add: board_ok_def combined_heuristic_def empty_tile_count max_tile_formula)

theorem combined_heuristic_formula_witness:
  "board_ok [[2, 2, 0, 0], [4, 0, 4, 8], [0, 0, 0, 2], [2, 4, 8, 16]] \<and>
   combined_heuristic exact_ops [[2, 2, 0, 0], [4, 0, 4, 8], [0, 0, 0, 2], [2, 4, 8, 16]] =
     x_add (x_add (x_add (x_mul (Fin (27 / 10)) (Fin 6)) (x_mul (Fin 1) (Fin (log 2 16))))
              (x_mul (Fin (1 / 10))
                 (smoothness_heuristic exact_ops [[2, 2, 0, 0], [4, 0, 4, 8], [0, 0, 0, 2], [2, 4, 8, 16]])))
       (x_mul (Fin 1)
          (monotonicity_heuristic exact_ops [[2, 2, 0, 0], [4, 0, 4, 8], [0, 0, 0, 2], [2, 4, 8, 16]]))"
  using combined_heuristic_formula [of "[[2, 2, 0, 0], [4, 0, 4, 8], [0, 0, 0, 2], [2, 4, 8, 16]]" exact_ops]
  by (simp add: board_ok_def wf_grid_def exact_ops_def)

section \<open>The value of a chance node\<close>

















end
